theory Spec2Isabelle
  imports Main
begin

section \<open>The Zulu morphological analyzer of \<^verbatim>\<open>server.js\<close>\<close>

text \<open>
  The class \<^verbatim>\<open>ZuluMorphAnalyzer\<close> (lines 25--256 of \<^verbatim>\<open>src/server.js\<close>) is embedded
  function by function. The receiver \<open>this\<close> is an explicit argument: a record of the
  rule tables the constructor stores in it.

  A JavaScript string is a sequence of UTF-16 code units. Here a \<open>string\<close> is a list
  of \<open>char\<close>, read as the code units 0 to 255 (ASCII and Latin-1). On that range the
  functions below are the ones of ECMAScript: \<open>toLowerCase\<close> maps \<open>A\<close>--\<open>Z\<close> and
  the capital letters U+00C0--U+00DE (without the sign U+00D7) to the letter 32 places
  later, and the white space of \<open>trim\<close> and of the regular expression class
  \<^verbatim>\<open>\s\<close> is U+0009--U+000D, U+0020 and U+00A0.
\<close>

subsection \<open>Strings\<close>

definition code_unit :: "char \<Rightarrow> nat" where
  "code_unit c = of_char c"

definition toLowerCaseUnit :: "char \<Rightarrow> char" where
  "toLowerCaseUnit c =
     (let n = code_unit c in
      if (65 \<le> n \<and> n \<le> 90) \<or> (192 \<le> n \<and> n \<le> 222 \<and> n \<noteq> 215)
      then char_of (n + 32) else c)"

definition toLowerCase :: "string \<Rightarrow> string" where
  "toLowerCase s = map toLowerCaseUnit s"

definition isWhiteSpace :: "char \<Rightarrow> bool" where
  "isWhiteSpace c = (code_unit c \<in> {9, 10, 11, 12, 13, 32, 160})"

definition trim :: "string \<Rightarrow> string" where
  "trim s = rev (dropWhile isWhiteSpace (rev (dropWhile isWhiteSpace s)))"

definition startsWith :: "string \<Rightarrow> string \<Rightarrow> bool" where
  "startsWith s p = (take (length p) s = p)"

definition endsWith :: "string \<Rightarrow> string \<Rightarrow> bool" where
  "endsWith s p = (length p \<le> length s \<and> drop (length s - length p) s = p)"

text \<open>\<open>s.indexOf(p)\<close>: the least index at which \<open>p\<close> occurs in \<open>s\<close>; JavaScript's
  \<open>-1\<close> is \<open>None\<close>.\<close>

fun indexOf :: "string \<Rightarrow> string \<Rightarrow> nat option" where
  "indexOf [] p = (if p = [] then Some 0 else None)"
| "indexOf (c # cs) p =
     (if startsWith (c # cs) p then Some 0 else map_option Suc (indexOf cs p))"

definition includesStr :: "string \<Rightarrow> string \<Rightarrow> bool" where
  "includesStr s p = (indexOf s p \<noteq> None)"

text \<open>\<open>s.split(sep)\<close> for a separator of one code unit: always at least one piece.\<close>

fun split :: "string \<Rightarrow> char \<Rightarrow> string list" where
  "split [] sep = [[]]"
| "split (c # cs) sep =
     (if c = sep then [] # split cs sep
      else (case split cs sep of [] \<Rightarrow> [[c]] | piece # pieces \<Rightarrow> (c # piece) # pieces))"

text \<open>\<open>xs.join(sep)\<close> on an array of strings.\<close>

fun join :: "string list \<Rightarrow> string \<Rightarrow> string" where
  "join [] sep = []"
| "join [x] sep = x"
| "join (x # y # ys) sep = x @ sep @ join (y # ys) sep"

text \<open>The decimal numeral of a number, as a template literal renders it.\<close>

fun numberToString :: "nat \<Rightarrow> string" where
  "numberToString n =
     (if n < 10 then [char_of (48 + n)]
      else numberToString (n div 10) @ [char_of (48 + n mod 10)])"

subsection \<open>Values and objects\<close>

text \<open>
  The values a \<open>tag\<close> can hold. The rule tables are plain object literals, so a
  property read \<open>obj[key]\<close> that finds no own property goes on to
  \<open>Object.prototype\<close>, whose members are native functions, and the accessor
  \<open>__proto__\<close>, which returns \<open>Object.prototype\<close> itself.
\<close>

datatype js_value = Undefined | Str string | NativeFunction string | ObjectPrototype

fun truthy :: "js_value \<Rightarrow> bool" where
  "truthy Undefined = False"
| "truthy (Str s) = (s \<noteq> [])"
| "truthy (NativeFunction f) = True"
| "truthy ObjectPrototype = True"

text \<open>String conversion inside a template literal.\<close>

fun toString :: "js_value \<Rightarrow> string" where
  "toString Undefined = ''undefined''"
| "toString (Str s) = s"
| "toString (NativeFunction f) = ''function '' @ f @ ''() { [native code] }''"
| "toString ObjectPrototype = ''[object Object]''"

definition objectPrototypeGet :: "string \<Rightarrow> js_value" where
  "objectPrototypeGet key =
     (if key = ''constructor'' then NativeFunction ''Object''
      else if key = ''__proto__'' then ObjectPrototype
      else if key \<in> set [''hasOwnProperty'', ''isPrototypeOf'', ''propertyIsEnumerable'',
                ''toLocaleString'', ''toString'', ''valueOf'', ''__defineGetter__'',
                ''__defineSetter__'', ''__lookupGetter__'', ''__lookupSetter__'']
      then NativeFunction key
      else Undefined)"

text \<open>
  An object literal with string values, as the list of its own properties in the order
  \<open>for (k in obj)\<close> visits them: the order of first insertion (no key of the tables is
  an array index). A key written twice keeps its first place and takes the last value.
\<close>

fun defineProperty :: "(string \<times> 'v) list \<Rightarrow> string \<Rightarrow> 'v \<Rightarrow> (string \<times> 'v) list" where
  "defineProperty [] k v = [(k, v)]"
| "defineProperty (p # ps) k v =
     (if fst p = k then (k, v) # ps else p # defineProperty ps k v)"

definition objectLiteral :: "(string \<times> 'v) list \<Rightarrow> (string \<times> 'v) list" where
  "objectLiteral props = foldl (\<lambda>obj (k, v). defineProperty obj k v) [] props"

definition getProperty :: "(string \<times> string) list \<Rightarrow> string \<Rightarrow> js_value" where
  "getProperty obj key =
     (case map_of obj key of Some v \<Rightarrow> Str v | None \<Rightarrow> objectPrototypeGet key)"

subsection \<open>The analyzer object\<close>

record prefixInfo =
  class' :: nat
  type :: string

record morpheme =
  morph :: string
  tag :: js_value

record analyzer =
  nounPrefixes :: "(string \<times> prefixInfo) list"
  verbExtensions :: "(string \<times> string) list"
  commonMorphemes :: "(string \<times> string) list"
  quantifiers :: "(string \<times> string) list"
  vocabulary :: "(string \<times> string) list"
  verbRoots :: "string list"

definition initializeMorphPatterns :: "analyzer \<Rightarrow> analyzer" where
  "initializeMorphPatterns this = this
     \<lparr> nounPrefixes := objectLiteral
         [(''umu'', \<lparr>class' = 1, type = ''NPrePre1''\<rparr>),
          (''aba'', \<lparr>class' = 2, type = ''NPrePre2''\<rparr>),
          (''umu'', \<lparr>class' = 3, type = ''NPrePre3''\<rparr>),
          (''imi'', \<lparr>class' = 4, type = ''NPrePre4''\<rparr>),
          (''ili'', \<lparr>class' = 5, type = ''NPrePre5''\<rparr>),
          (''ama'', \<lparr>class' = 6, type = ''NPrePre6''\<rparr>),
          (''isi'', \<lparr>class' = 7, type = ''NPrePre7''\<rparr>),
          (''izi'', \<lparr>class' = 8, type = ''NPrePre8''\<rparr>),
          (''in'', \<lparr>class' = 9, type = ''NPrePre9''\<rparr>),
          (''izin'', \<lparr>class' = 10, type = ''NPrePre10''\<rparr>),
          (''ulu'', \<lparr>class' = 11, type = ''NPrePre11''\<rparr>),
          (''ubu'', \<lparr>class' = 14, type = ''NPrePre14''\<rparr>),
          (''uku'', \<lparr>class' = 15, type = ''NPrePre15''\<rparr>)],
       verbExtensions := objectLiteral
         [(''el'', ''ApplExt''), (''an'', ''RecExt''), (''akal'', ''NeutExt''),
          (''is'', ''CausExt''), (''w'', ''PassExt'')],
       commonMorphemes := objectLiteral
         [(''nga'', ''AdvPre''), (''ka'', ''AdvPre''), (''na'', ''AdvPre''),
          (''ku'', ''LocPre''), (''e'', ''LocPre''), (''s'', ''PreLoc-s''),
          (''wa'', ''PossConc3''), (''ya'', ''PossConc4''), (''za'', ''PossConc10''),
          (''kwa'', ''PossConc15''), (''ng'', ''CopPre''), (''o'', ''RelConc3''),
          (''ezi'', ''RelConc10''), (''eli'', ''RelConc5''), (''aba'', ''RelConc2'')],
       quantifiers := objectLiteral
         [(''dwa'', ''QuantStem''), (''nye'', ''AdjStem''), (''bili'', ''AdjStem'')] \<rparr>"

definition initializeVocabulary :: "analyzer \<Rightarrow> analyzer" where
  "initializeVocabulary this = this
     \<lparr> vocabulary := objectLiteral
         [(''jongo'', ''NStem''), (''konzo'', ''NStem''), (''website'', ''Foreign''),
          (''Ningizimu'', ''ProperName''), (''Afrika'', ''ProperName''),
          (''thol'', ''VRoot''), (''thombo'', ''NStem''), (''azi'', ''NStem''),
          (''hulumeni'', ''NStem''), (''phungul'', ''VRoot''), (''gebe'', ''NStem''),
          (''khona'', ''Adv''), (''phakathi'', ''Adv''), (''ndla'', ''NStem''),
          (''notho'', ''NStem''), (''khakha'', ''NStem''), (''qal'', ''VRoot'')],
       verbRoots := [''thol'', ''phungul'', ''qal'', ''phak'', ''khon'', ''fund'', ''bon'',
          ''sebenz'', ''hlol''] \<rparr>"

text \<open>\<open>new ZuluMorphAnalyzer()\<close>: the constructor runs the two initializers on a fresh
  object; \<open>zuluAnalyzer\<close> is the one instance the server creates (line 294).\<close>

definition zuluAnalyzer :: analyzer where
  "zuluAnalyzer = initializeVocabulary (initializeMorphPatterns
     \<lparr> nounPrefixes = [], verbExtensions = [], commonMorphemes = [], quantifiers = [],
       vocabulary = [], verbRoots = [] \<rparr>)"

definition getNounBasicPrefix :: "nat \<Rightarrow> string option" where
  "getNounBasicPrefix nounClass = map_of
     [(1, ''mu''), (2, ''ba''), (3, ''mu''), (4, ''mi''), (5, ''li''), (6, ''ma''),
      (7, ''si''), (8, ''zi''), (9, ''n''), (10, ''zin''), (11, ''lu''), (14, ''bu''),
      (15, ''ku'')] nounClass"

subsection \<open>analyzeWord\<close>

text \<open>The two regular expressions: \<^verbatim>\<open>/^[.,!?;:]$/\<close> and \<^verbatim>\<open>/^[A-Z]/\<close>.\<close>

definition isPunctuation :: "string \<Rightarrow> bool" where
  "isPunctuation word = (case word of [c] \<Rightarrow> c \<in> set ''.,!?;:'' | _ \<Rightarrow> False)"

definition startsUpperCase :: "string \<Rightarrow> bool" where
  "startsUpperCase word =
     (case word of [] \<Rightarrow> False | c # _ \<Rightarrow> 65 \<le> code_unit c \<and> code_unit c \<le> 90)"

text \<open>
  One run of the body of the \<open>while\<close> loop (lines 136--217), split at its five
  \<open>if (found) continue\<close>. Each rule returns the morphemes it pushes and the new
  \<open>remaining\<close>, or \<open>None\<close> when it leaves \<open>found\<close> false.
\<close>

definition checkNounPrefixes ::
  "'a analyzer_scheme \<Rightarrow> string \<Rightarrow> (morpheme list \<times> string) option" where
  "checkNounPrefixes this remaining =
     (case find (\<lambda>(prefix, prefixInfo). startsWith remaining prefix) (nounPrefixes this) of
        None \<Rightarrow> None
      | Some (prefix, prefixInfo) \<Rightarrow>
          Some ([\<lparr>morph = take 1 prefix, tag = Str (type prefixInfo)\<rparr>] @
                (if length prefix > 1 then
                   (case getNounBasicPrefix (class' prefixInfo) of
                      None \<Rightarrow> []
                    | Some basicPrefix \<Rightarrow>
                        if basicPrefix \<noteq> [] then
                          [\<lparr>morph = basicPrefix,
                            tag = Str (''BPre'' @ numberToString (class' prefixInfo))\<rparr>]
                        else [])
                 else []),
                drop (length prefix) remaining))"

definition checkCommonMorphemes ::
  "'a analyzer_scheme \<Rightarrow> string \<Rightarrow> (morpheme list \<times> string) option" where
  "checkCommonMorphemes this remaining =
     (case find (\<lambda>(morpheme, t). startsWith remaining morpheme) (commonMorphemes this) of
        None \<Rightarrow> None
      | Some (morpheme, t) \<Rightarrow>
          Some ([\<lparr>morph = morpheme, tag = Str t\<rparr>], drop (length morpheme) remaining))"

text \<open>The extension loop goes on to the next pattern when the first occurrence of the
  current one is at index 0.\<close>

fun checkVerbExtensionsFrom ::
  "(string \<times> string) list \<Rightarrow> string \<Rightarrow> (morpheme list \<times> string) option" where
  "checkVerbExtensionsFrom [] remaining = None"
| "checkVerbExtensionsFrom ((ext, t) # exts) remaining =
     (if includesStr remaining ext then
        (case indexOf remaining ext of
           Some index \<Rightarrow>
             if index > 0 then
               Some ([\<lparr>morph = take index remaining, tag = Str ''VRoot''\<rparr>,
                      \<lparr>morph = ext, tag = Str t\<rparr>],
                     drop (index + length ext) remaining)
             else checkVerbExtensionsFrom exts remaining
         | None \<Rightarrow> checkVerbExtensionsFrom exts remaining)
      else checkVerbExtensionsFrom exts remaining)"

definition checkVerbExtensions ::
  "'a analyzer_scheme \<Rightarrow> string \<Rightarrow> (morpheme list \<times> string) option" where
  "checkVerbExtensions this remaining = checkVerbExtensionsFrom (verbExtensions this) remaining"

definition checkVerbTermination :: "string \<Rightarrow> (morpheme list \<times> string) option" where
  "checkVerbTermination remaining =
     (if endsWith remaining ''a'' \<and> length remaining > 1 then
        (let root = take (length remaining - 1) remaining in
         if length root > 0 then
           Some ([\<lparr>morph = root, tag = Str ''VRoot''\<rparr>, \<lparr>morph = ''a'', tag = Str ''VerbTerm''\<rparr>],
                 [])
         else None)
      else None)"

definition checkQuantifiers ::
  "'a analyzer_scheme \<Rightarrow> string \<Rightarrow> (morpheme list \<times> string) option" where
  "checkQuantifiers this remaining =
     (case find (\<lambda>(quant, t). remaining = quant) (quantifiers this) of
        None \<Rightarrow> None
      | Some (quant, t) \<Rightarrow> Some ([\<lparr>morph = quant, tag = Str t\<rparr>], []))"

datatype loopStep = Continue string "morpheme list" | Break "morpheme list"

definition pushAndContinue :: "morpheme list \<Rightarrow> morpheme list \<times> string \<Rightarrow> loopStep" where
  "pushAndContinue morphemes r = Continue (snd r) (morphemes @ fst r)"

definition loopBody :: "'a analyzer_scheme \<Rightarrow> string \<Rightarrow> morpheme list \<Rightarrow> loopStep" where
  "loopBody this remaining morphemes =
     (case checkNounPrefixes this remaining of
        Some r \<Rightarrow> pushAndContinue morphemes r
      | None \<Rightarrow>
     (case checkCommonMorphemes this remaining of
        Some r \<Rightarrow> pushAndContinue morphemes r
      | None \<Rightarrow>
     (case checkVerbExtensions this remaining of
        Some r \<Rightarrow> pushAndContinue morphemes r
      | None \<Rightarrow>
     (case checkVerbTermination remaining of
        Some r \<Rightarrow> pushAndContinue morphemes r
      | None \<Rightarrow>
     (case checkQuantifiers this remaining of
        Some r \<Rightarrow> pushAndContinue morphemes r
      | None \<Rightarrow> Break (morphemes @ [\<lparr>morph = remaining, tag = Str ''NStem''\<rparr>]))))))"

text \<open>The \<open>while\<close> loop. With rule tables that hold an empty pattern it runs forever;
  \<open>None\<close> is the loop that does not return.\<close>

partial_function (option) stripLoop ::
  "'a analyzer_scheme \<Rightarrow> string \<Rightarrow> morpheme list \<Rightarrow> morpheme list option" where
  "stripLoop this remaining morphemes =
     (if length remaining > 0 then
        (case loopBody this remaining morphemes of
           Continue remaining' morphemes' \<Rightarrow> stripLoop this remaining' morphemes'
         | Break morphemes' \<Rightarrow> Some morphemes')
      else Some morphemes)"

definition analyzeWord :: "'a analyzer_scheme \<Rightarrow> string \<Rightarrow> morpheme list option" where
  "analyzeWord this word =
     (let originalWord = word; remaining = toLowerCase word in
      if isPunctuation word then Some [\<lparr>morph = word, tag = Str ''Punc''\<rparr>]
      else if truthy (getProperty (vocabulary this) remaining)
        then Some [\<lparr>morph = remaining, tag = getProperty (vocabulary this) remaining\<rparr>]
      else if startsUpperCase originalWord \<and> length originalWord > 2
        then Some [\<lparr>morph = originalWord, tag = Str ''ProperName''\<rparr>]
      else map_option
        (\<lambda>morphemes. if length morphemes > 0 then morphemes
                      else [\<lparr>morph = originalWord, tag = Str ''Unknown''\<rparr>])
        (stripLoop this remaining []))"

text \<open>The loop cut off after \<open>n\<close> runs of its body: \<open>None\<close> when \<open>n\<close> runs did not
  end it. It counts the iterations of \<open>stripLoop\<close>.\<close>

fun stripLoopN ::
  "'a analyzer_scheme \<Rightarrow> nat \<Rightarrow> string \<Rightarrow> morpheme list \<Rightarrow> morpheme list option" where
  "stripLoopN this 0 remaining morphemes =
     (if length remaining > 0 then None else Some morphemes)"
| "stripLoopN this (Suc n) remaining morphemes =
     (if length remaining > 0 then
        (case loopBody this remaining morphemes of
           Continue remaining' morphemes' \<Rightarrow> stripLoopN this n remaining' morphemes'
         | Break morphemes' \<Rightarrow> Some morphemes')
      else Some morphemes)"

subsection \<open>analyzeText\<close>

definition formatMorphAnalysis :: "string \<Rightarrow> morpheme list \<Rightarrow> string" where
  "formatMorphAnalysis word morphemes =
     (let parts = map (\<lambda>m. morph m @ ''['' @ toString (tag m) @ '']'') morphemes
      in join parts ''-'')"

text \<open>\<open>s.split(/\s+/)\<close>: the pieces between the maximal runs of white space, with an
  empty piece before a leading run and after a trailing one.\<close>

function splitWhitespace :: "string \<Rightarrow> string list" where
  "splitWhitespace s =
     (case dropWhile (\<lambda>c. \<not> isWhiteSpace c) s of
        [] \<Rightarrow> [s]
      | c # cs \<Rightarrow>
          takeWhile (\<lambda>c. \<not> isWhiteSpace c) s # splitWhitespace (dropWhile isWhiteSpace cs))"
  by pat_completeness auto
termination
proof (relation "measure length")
  fix s :: string and c cs
  assume "dropWhile (\<lambda>c. \<not> isWhiteSpace c) s = c # cs"
  then have "length cs < length s"
    using length_dropWhile_le [of "\<lambda>c. \<not> isWhiteSpace c" s] by simp
  moreover have "length (dropWhile isWhiteSpace cs) \<le> length cs"
    by (rule length_dropWhile_le)
  ultimately show "(dropWhile isWhiteSpace cs, s) \<in> measure length" by simp
qed simp

text \<open>The body of \<open>lines.forEach((line, index) => ...)\<close>: the string pushed to
  \<open>results\<close>.\<close>

definition analyzeLine :: "'a analyzer_scheme \<Rightarrow> string \<Rightarrow> nat \<Rightarrow> string option" where
  "analyzeLine this line index =
     (let lineNumber = index + 1;
          words = splitWhitespace (trim line)
      in map_option
           (\<lambda>analyzedWords. ''<LINE '' @ numberToString lineNumber @ ''>'' @ join analyzedWords '' '')
           (those (map (\<lambda>word. map_option (formatMorphAnalysis word) (analyzeWord this word))
                       words)))"

definition analyzeText :: "'a analyzer_scheme \<Rightarrow> string \<Rightarrow> string option" where
  "analyzeText this text =
     (let lines = filter (\<lambda>line. trim line \<noteq> []) (split text (CHR 0x0A))
      in map_option (\<lambda>results. join results [CHR 0x0A])
           (those (map (\<lambda>(line, index). analyzeLine this line index)
                       (zip lines [0..<length lines]))))"

subsection \<open>The output format, in the words of the specification\<close>

text \<open>
  A second description of what \<open>analyzeText\<close> returns, written from the
  specification and not from the code, to compare the code with: a line is dropped
  when it is empty or holds white space only; the words of a line are its maximal runs
  of characters that are not white space; the kept lines are numbered from 1.
\<close>

definition isBlank :: "string \<Rightarrow> bool" where
  "isBlank line = list_all isWhiteSpace line"

function wordsOf :: "string \<Rightarrow> string list" where
  "wordsOf s =
     (case dropWhile isWhiteSpace s of
        [] \<Rightarrow> []
      | c # cs \<Rightarrow>
          takeWhile (\<lambda>c. \<not> isWhiteSpace c) (c # cs) #
          wordsOf (dropWhile (\<lambda>c. \<not> isWhiteSpace c) cs))"
  by pat_completeness auto
termination
proof (relation "measure length")
  fix s :: string and c cs
  assume "dropWhile isWhiteSpace s = c # cs"
  then have "length cs < length s"
    using length_dropWhile_le [of isWhiteSpace s] by simp
  moreover have "length (dropWhile (\<lambda>c. \<not> isWhiteSpace c) cs) \<le> length cs"
    by (rule length_dropWhile_le)
  ultimately show "(dropWhile (\<lambda>c. \<not> isWhiteSpace c) cs, s) \<in> measure length" by simp
qed simp

definition renderWord :: "morpheme list \<Rightarrow> string" where
  "renderWord ms = join (map (\<lambda>m. morph m @ ''['' @ toString (tag m) @ '']'') ms) ''-''"

definition renderLine :: "nat \<Rightarrow> string list \<Rightarrow> string" where
  "renderLine n rendered = ''<LINE '' @ numberToString n @ ''>'' @ join rendered '' ''"

definition specAnalyzeText :: "(string \<Rightarrow> morpheme list) \<Rightarrow> string \<Rightarrow> string" where
  "specAnalyzeText analyze text =
     (let kept = filter (\<lambda>line. \<not> isBlank line) (split text (CHR 0x0A))
      in join (map (\<lambda>(n, line). renderLine n (map (\<lambda>word. renderWord (analyze word))
                                                     (wordsOf line)))
                   (zip [1..<Suc (length kept)] kept))
              [CHR 0x0A])"

subsection \<open>The state of \<open>Object.prototype\<close> as an argument\<close>

text \<open>
  \<open>Object.prototype\<close> is one object, shared by all the code of the process, and any
  of that code can define properties on it. The functions above read it as the
  interpreter sets it up. Here \<open>analyzeWord\<close> is embedded once more, with the state
  of \<open>Object.prototype\<close> as an argument: the list of the properties defined on it
  with \<open>Object.defineProperty\<close> and a string value, the first definition of a name
  first (a later one of the same name is refused). Such a property is not enumerable,
  as the built-in ones are not, so no \<open>for (k in obj)\<close> visits it, and it takes the
  place of a built-in property of its name. Two reads of \<open>analyzeWord\<close> go on to
  \<open>Object.prototype\<close> when the object read has no own property of the name:
  \<open>this.vocabulary[remaining]\<close> (line 125) and \<open>basicPrefixes[nounClass]\<close>
  (line 228). No built-in property has a decimal numeral as its name.
\<close>

type_synonym prototypeState = "(string \<times> string) list"

definition objectPrototypeGetIn :: "prototypeState \<Rightarrow> string \<Rightarrow> js_value" where
  "objectPrototypeGetIn proto key =
     (case map_of proto key of Some v \<Rightarrow> Str v | None \<Rightarrow> objectPrototypeGet key)"

definition getPropertyIn ::
  "prototypeState \<Rightarrow> (string \<times> string) list \<Rightarrow> string \<Rightarrow> js_value" where
  "getPropertyIn proto obj key =
     (case map_of obj key of Some v \<Rightarrow> Str v | None \<Rightarrow> objectPrototypeGetIn proto key)"

definition getNounBasicPrefixIn :: "prototypeState \<Rightarrow> nat \<Rightarrow> string option" where
  "getNounBasicPrefixIn proto nounClass =
     (case getNounBasicPrefix nounClass of
        Some basicPrefix \<Rightarrow> Some basicPrefix
      | None \<Rightarrow> map_of proto (numberToString nounClass))"

definition checkNounPrefixesIn ::
  "prototypeState \<Rightarrow> 'a analyzer_scheme \<Rightarrow> string \<Rightarrow> (morpheme list \<times> string) option" where
  "checkNounPrefixesIn proto this remaining =
     (case find (\<lambda>(prefix, prefixInfo). startsWith remaining prefix) (nounPrefixes this) of
        None \<Rightarrow> None
      | Some (prefix, prefixInfo) \<Rightarrow>
          Some ([\<lparr>morph = take 1 prefix, tag = Str (type prefixInfo)\<rparr>] @
                (if length prefix > 1 then
                   (case getNounBasicPrefixIn proto (class' prefixInfo) of
                      None \<Rightarrow> []
                    | Some basicPrefix \<Rightarrow>
                        if basicPrefix \<noteq> [] then
                          [\<lparr>morph = basicPrefix,
                            tag = Str (''BPre'' @ numberToString (class' prefixInfo))\<rparr>]
                        else [])
                 else []),
                drop (length prefix) remaining))"

definition loopBodyIn ::
  "prototypeState \<Rightarrow> 'a analyzer_scheme \<Rightarrow> string \<Rightarrow> morpheme list \<Rightarrow> loopStep" where
  "loopBodyIn proto this remaining morphemes =
     (case checkNounPrefixesIn proto this remaining of
        Some r \<Rightarrow> pushAndContinue morphemes r
      | None \<Rightarrow>
     (case checkCommonMorphemes this remaining of
        Some r \<Rightarrow> pushAndContinue morphemes r
      | None \<Rightarrow>
     (case checkVerbExtensions this remaining of
        Some r \<Rightarrow> pushAndContinue morphemes r
      | None \<Rightarrow>
     (case checkVerbTermination remaining of
        Some r \<Rightarrow> pushAndContinue morphemes r
      | None \<Rightarrow>
     (case checkQuantifiers this remaining of
        Some r \<Rightarrow> pushAndContinue morphemes r
      | None \<Rightarrow> Break (morphemes @ [\<lparr>morph = remaining, tag = Str ''NStem''\<rparr>]))))))"

text \<open>The \<open>while\<close> loop of lines 135--218 over a given body.\<close>

partial_function (option) whileRemaining ::
  "(string \<Rightarrow> morpheme list \<Rightarrow> loopStep) \<Rightarrow> string \<Rightarrow> morpheme list \<Rightarrow> morpheme list option"
  where
  "whileRemaining body remaining morphemes =
     (if length remaining > 0 then
        (case body remaining morphemes of
           Continue remaining' morphemes' \<Rightarrow> whileRemaining body remaining' morphemes'
         | Break morphemes' \<Rightarrow> Some morphemes')
      else Some morphemes)"

definition stripLoopIn ::
  "prototypeState \<Rightarrow> 'a analyzer_scheme \<Rightarrow> string \<Rightarrow> morpheme list \<Rightarrow> morpheme list option"
  where
  "stripLoopIn proto this remaining morphemes =
     whileRemaining (loopBodyIn proto this) remaining morphemes"

definition analyzeWordIn ::
  "prototypeState \<Rightarrow> 'a analyzer_scheme \<Rightarrow> string \<Rightarrow> morpheme list option" where
  "analyzeWordIn proto this word =
     (let originalWord = word; remaining = toLowerCase word in
      if isPunctuation word then Some [\<lparr>morph = word, tag = Str ''Punc''\<rparr>]
      else if truthy (getPropertyIn proto (vocabulary this) remaining)
        then Some [\<lparr>morph = remaining, tag = getPropertyIn proto (vocabulary this) remaining\<rparr>]
      else if startsUpperCase originalWord \<and> length originalWord > 2
        then Some [\<lparr>morph = originalWord, tag = Str ''ProperName''\<rparr>]
      else map_option
        (\<lambda>morphemes. if length morphemes > 0 then morphemes
                      else [\<lparr>morph = originalWord, tag = Str ''Unknown''\<rparr>])
        (stripLoopIn proto this remaining []))"

subsection \<open>Predicates used in the statements and proofs\<close>


text \<open>A morpheme the loop may push: its \<open>morph\<close> is not empty and its tag is neither
  of the two tags of the noun-prefix entry of class 1.\<close>

definition emitted_ok :: "morpheme \<Rightarrow> bool" where
  "emitted_ok m = (morph m \<noteq> [] \<and> tag m \<noteq> Str ''NPrePre1'' \<and> tag m \<noteq> Str ''BPre1'')"

declare stripLoop.simps [code]

declare whileRemaining.simps [code]

declare numberToString.simps [simp del]

declare splitWhitespace.simps [simp del]

declare wordsOf.simps [simp del]

section \<open>Properties\<close>

subsection \<open>The rule tables of the analyzer\<close>

lemmas zulu_defs = zuluAnalyzer_def initializeVocabulary_def initializeMorphPatterns_def
  objectLiteral_def

lemma nounPrefixes_zulu:
  "nounPrefixes zuluAnalyzer =
     [(''umu'', \<lparr>class' = 3, type = ''NPrePre3''\<rparr>),
      (''aba'', \<lparr>class' = 2, type = ''NPrePre2''\<rparr>),
      (''imi'', \<lparr>class' = 4, type = ''NPrePre4''\<rparr>),
      (''ili'', \<lparr>class' = 5, type = ''NPrePre5''\<rparr>),
      (''ama'', \<lparr>class' = 6, type = ''NPrePre6''\<rparr>),
      (''isi'', \<lparr>class' = 7, type = ''NPrePre7''\<rparr>),
      (''izi'', \<lparr>class' = 8, type = ''NPrePre8''\<rparr>),
      (''in'', \<lparr>class' = 9, type = ''NPrePre9''\<rparr>),
      (''izin'', \<lparr>class' = 10, type = ''NPrePre10''\<rparr>),
      (''ulu'', \<lparr>class' = 11, type = ''NPrePre11''\<rparr>),
      (''ubu'', \<lparr>class' = 14, type = ''NPrePre14''\<rparr>),
      (''uku'', \<lparr>class' = 15, type = ''NPrePre15''\<rparr>)]"
  by (simp add: zulu_defs)

lemma verbExtensions_zulu:
  "verbExtensions zuluAnalyzer =
     [(''el'', ''ApplExt''), (''an'', ''RecExt''), (''akal'', ''NeutExt''),
      (''is'', ''CausExt''), (''w'', ''PassExt'')]"
  by (simp add: zulu_defs)

lemma commonMorphemes_zulu:
  "commonMorphemes zuluAnalyzer =
     [(''nga'', ''AdvPre''), (''ka'', ''AdvPre''), (''na'', ''AdvPre''),
      (''ku'', ''LocPre''), (''e'', ''LocPre''), (''s'', ''PreLoc-s''),
      (''wa'', ''PossConc3''), (''ya'', ''PossConc4''), (''za'', ''PossConc10''),
      (''kwa'', ''PossConc15''), (''ng'', ''CopPre''), (''o'', ''RelConc3''),
      (''ezi'', ''RelConc10''), (''eli'', ''RelConc5''), (''aba'', ''RelConc2'')]"
  by (simp add: zulu_defs)

lemma quantifiers_zulu:
  "quantifiers zuluAnalyzer =
     [(''dwa'', ''QuantStem''), (''nye'', ''AdjStem''), (''bili'', ''AdjStem'')]"
  by (simp add: zulu_defs)

lemma vocabulary_zulu:
  "vocabulary zuluAnalyzer =
     [(''jongo'', ''NStem''), (''konzo'', ''NStem''), (''website'', ''Foreign''),
      (''Ningizimu'', ''ProperName''), (''Afrika'', ''ProperName''),
      (''thol'', ''VRoot''), (''thombo'', ''NStem''), (''azi'', ''NStem''),
      (''hulumeni'', ''NStem''), (''phungul'', ''VRoot''), (''gebe'', ''NStem''),
      (''khona'', ''Adv''), (''phakathi'', ''Adv''), (''ndla'', ''NStem''),
      (''notho'', ''NStem''), (''khakha'', ''NStem''), (''qal'', ''VRoot'')]"
  by (simp add: zulu_defs)

lemma startsWith_drop_less:
  assumes "startsWith r p" "p \<noteq> []"
  shows "length (drop (length p) r) < length r"
proof -
  from assms(1) have "length (take (length p) r) = length p"
    by (simp add: startsWith_def)
  then have "length p \<le> length r" by simp
  with assms(2) show ?thesis by (cases p) auto
qed

lemma nounPrefixes_nonempty:
  "(p, i) \<in> set (nounPrefixes zuluAnalyzer) \<Longrightarrow> p \<noteq> []"
  by (auto simp: nounPrefixes_zulu)

lemma commonMorphemes_nonempty:
  "(p, t) \<in> set (commonMorphemes zuluAnalyzer) \<Longrightarrow> p \<noteq> []"
  by (auto simp: commonMorphemes_zulu)

lemma find_SomeD: "find P xs = Some x \<Longrightarrow> P x \<and> x \<in> set xs"
  by (auto simp: find_Some_iff)

lemma checkNounPrefixes_shrinks:
  assumes "checkNounPrefixes zuluAnalyzer r = Some (ms, r')"
  shows "length r' < length r"
proof -
  from assms obtain p i where f: "find (\<lambda>(prefix, prefixInfo). startsWith r prefix)
      (nounPrefixes zuluAnalyzer) = Some (p, i)" and r': "r' = drop (length p) r"
    by (auto simp: checkNounPrefixes_def split: option.splits)
  from find_SomeD [OF f] have "startsWith r p" "p \<noteq> []"
    by (auto dest: nounPrefixes_nonempty)
  then show ?thesis unfolding r' by (rule startsWith_drop_less)
qed

lemma checkCommonMorphemes_shrinks:
  assumes "checkCommonMorphemes zuluAnalyzer r = Some (ms, r')"
  shows "length r' < length r"
proof -
  from assms obtain p t where f: "find (\<lambda>(morpheme, t). startsWith r morpheme)
      (commonMorphemes zuluAnalyzer) = Some (p, t)" and r': "r' = drop (length p) r"
    by (auto simp: checkCommonMorphemes_def split: option.splits)
  from find_SomeD [OF f] have "startsWith r p" "p \<noteq> []"
    by (auto dest: commonMorphemes_nonempty)
  then show ?thesis unfolding r' by (rule startsWith_drop_less)
qed

lemma indexOf_le: "indexOf s p = Some k \<Longrightarrow> k \<le> length s"
  by (induction s arbitrary: k) (auto split: if_splits)

lemma checkVerbExtensionsFrom_shrinks:
  "checkVerbExtensionsFrom exts r = Some (ms, r') \<Longrightarrow> length r' < length r"
proof (induction exts)
  case Nil
  then show ?case by simp
next
  case (Cons e exts)
  obtain ext t where e: "e = (ext, t)" by (cases e)
  from Cons show ?case
    using indexOf_le [of r ext]
    by (auto simp: e split: if_splits option.splits)
qed

lemma checkVerbExtensions_shrinks:
  "checkVerbExtensions this r = Some (ms, r') \<Longrightarrow> length r' < length r"
  unfolding checkVerbExtensions_def by (rule checkVerbExtensionsFrom_shrinks)

lemma checkVerbTermination_empties:
  "checkVerbTermination r = Some (ms, r') \<Longrightarrow> r' = []"
  by (auto simp: checkVerbTermination_def Let_def split: if_splits)

lemma checkQuantifiers_empties:
  "checkQuantifiers this r = Some (ms, r') \<Longrightarrow> r' = []"
  by (auto simp: checkQuantifiers_def split: option.splits)

lemma loopBody_Continue_shrinks:
  assumes "loopBody zuluAnalyzer r ms = Continue r' ms'" "r \<noteq> []"
  shows "length r' < length r"
  using assms checkNounPrefixes_shrinks [of r] checkCommonMorphemes_shrinks [of r]
    checkVerbExtensions_shrinks [of zuluAnalyzer r] checkVerbTermination_empties [of r]
    checkQuantifiers_empties [of zuluAnalyzer r]
  by (auto simp: loopBody_def pushAndContinue_def split: option.splits)

lemma stripLoopN_Some_stripLoop:
  "stripLoopN this n r ms = Some y \<Longrightarrow> stripLoop this r ms = Some y"
proof (induction n arbitrary: r ms)
  case 0
  then show ?case by (subst stripLoop.simps) (simp split: if_splits)
next
  case (Suc n)
  then show ?case
    by (subst stripLoop.simps) (auto split: if_splits loopStep.splits)
qed

lemma stripLoopN_zulu_returns:
  "length r \<le> n \<Longrightarrow> \<exists>y. stripLoopN zuluAnalyzer n r ms = Some y"
proof (induction n arbitrary: r ms)
  case 0
  then show ?case by simp
next
  case (Suc n)
  show ?case
  proof (cases "r = []")
    case True
    then show ?thesis by simp
  next
    case False
    show ?thesis
    proof (cases "loopBody zuluAnalyzer r ms")
      case (Continue r' ms')
      with False have "length r' < length r" by (rule loopBody_Continue_shrinks [rotated])
      with Suc.prems have "length r' \<le> n" by simp
      from Suc.IH [OF this] Continue False show ?thesis by simp
    next
      case (Break ms')
      with False show ?thesis by simp
    qed
  qed
qed

subsection \<open>Termination and totality\<close>

lemma stripLoop_zulu_returns: "\<exists>y. stripLoop zuluAnalyzer r ms = Some y"
  using stripLoopN_zulu_returns [of r "length r" ms] stripLoopN_Some_stripLoop by blast

lemma analyzeWord_empty:
  "analyzeWord zuluAnalyzer [] = Some [\<lparr>morph = [], tag = Str ''Unknown''\<rparr>]"
  by code_simp

text \<open>
  Claim C5. \<open>analyzeWord\<close> returns on every string: the loop ends, so the result is
  \<open>Some\<close> sequence, and that sequence has at least one morpheme. On the empty
  string the result is the single morpheme with the empty \<open>morph\<close> and the tag
  \<open>Unknown\<close>.
\<close>

theorem analyzeWord_total:
  "(\<exists>ms. analyzeWord zuluAnalyzer w = Some ms \<and> 1 \<le> length ms) \<and>
   analyzeWord zuluAnalyzer [] = Some [\<lparr>morph = [], tag = Str ''Unknown''\<rparr>]"
proof
  obtain y where "stripLoop zuluAnalyzer (toLowerCase w) [] = Some y"
    using stripLoop_zulu_returns by blast
  then show "\<exists>ms. analyzeWord zuluAnalyzer w = Some ms \<and> 1 \<le> length ms"
    by (cases y) (auto simp: analyzeWord_def Let_def)
next
  show "analyzeWord zuluAnalyzer [] = Some [\<lparr>morph = [], tag = Str ''Unknown''\<rparr>]"
    by (rule analyzeWord_empty)
qed

lemma loopBody_fallback:
  assumes "checkNounPrefixes this r = None" "checkCommonMorphemes this r = None"
    "checkVerbExtensions this r = None" "checkVerbTermination r = None"
    "checkQuantifiers this r = None"
  shows "loopBody this r ms = Break (ms @ [\<lparr>morph = r, tag = Str ''NStem''\<rparr>])"
  using assms by (simp add: loopBody_def)

text \<open>
  Claim C6. Whatever \<open>remaining\<close> and \<open>morphemes\<close> the loop starts from: the
  rules 1 to 3 (noun prefix, common morpheme, verb extension) leave a strictly shorter
  \<open>remaining\<close>, the rules 4 and 5 (verb termination, quantifier) leave the empty
  one, and when no rule applies the body breaks with the fallback stem. So the loop
  returns, and it has returned after at most \<open>length remaining\<close> runs of its body:
  cut off after that many runs it gives the same result. \<open>analyzeWord\<close> starts it at
  \<open>remaining = toLowerCase word\<close>.
\<close>

theorem stripLoop_terminates:
  "(\<forall>ms r'. checkNounPrefixes zuluAnalyzer r = Some (ms, r') \<longrightarrow> length r' < length r) \<and>
   (\<forall>ms r'. checkCommonMorphemes zuluAnalyzer r = Some (ms, r') \<longrightarrow> length r' < length r) \<and>
   (\<forall>ms r'. checkVerbExtensions zuluAnalyzer r = Some (ms, r') \<longrightarrow> length r' < length r) \<and>
   (\<forall>ms r'. checkVerbTermination r = Some (ms, r') \<longrightarrow> r' = []) \<and>
   (\<forall>ms r'. checkQuantifiers zuluAnalyzer r = Some (ms, r') \<longrightarrow> r' = []) \<and>
   (checkNounPrefixes zuluAnalyzer r = None \<and> checkCommonMorphemes zuluAnalyzer r = None \<and>
    checkVerbExtensions zuluAnalyzer r = None \<and> checkVerbTermination r = None \<and>
    checkQuantifiers zuluAnalyzer r = None \<longrightarrow>
      loopBody zuluAnalyzer r morphemes = Break (morphemes @ [\<lparr>morph = r, tag = Str ''NStem''\<rparr>])) \<and>
   (\<exists>result. stripLoopN zuluAnalyzer (length r) r morphemes = Some result \<and>
              stripLoop zuluAnalyzer r morphemes = Some result)"
proof -
  obtain y where y: "stripLoopN zuluAnalyzer (length r) r morphemes = Some y"
    using stripLoopN_zulu_returns [of r "length r" morphemes] by blast
  then have "stripLoop zuluAnalyzer r morphemes = Some y"
    by (rule stripLoopN_Some_stripLoop)
  with y show ?thesis
    using checkNounPrefixes_shrinks [of r] checkCommonMorphemes_shrinks [of r]
      checkVerbExtensions_shrinks [of zuluAnalyzer r] checkVerbTermination_empties [of r]
      checkQuantifiers_empties [of zuluAnalyzer r] loopBody_fallback [of zuluAnalyzer r morphemes]
    by blast
qed

theorem stripLoop_terminates_witness:
  "checkNounPrefixes zuluAnalyzer ''umuntu'' =
     Some ([\<lparr>morph = ''u'', tag = Str ''NPrePre3''\<rparr>, \<lparr>morph = ''mu'', tag = Str ''BPre3''\<rparr>],
           ''ntu'') \<and>
   length ''ntu'' < length ''umuntu'' \<and>
   stripLoopN zuluAnalyzer (length ''umuntu'') ''umuntu'' [] = stripLoop zuluAnalyzer ''umuntu'' [] \<and>
   stripLoop zuluAnalyzer ''umuntu'' [] \<noteq> None"
proof -
  have e: "checkNounPrefixes zuluAnalyzer ''umuntu'' =
     Some ([\<lparr>morph = ''u'', tag = Str ''NPrePre3''\<rparr>, \<lparr>morph = ''mu'', tag = Str ''BPre3''\<rparr>],
           ''ntu'')"
    by code_simp
  from stripLoop_terminates [of "''umuntu''" "[]"] e show ?thesis by auto
qed

subsection \<open>The noun-class prefix rule\<close>

lemma numberToString_3: "numberToString 3 = ''3''"
  by code_simp

lemma nounPrefixes_entry:
  assumes "(p, info) \<in> set (nounPrefixes zuluAnalyzer)"
  shows "1 < length p \<and> (\<exists>bp. getNounBasicPrefix (class' info) = Some bp \<and> bp \<noteq> [])"
  using assms by (auto simp: nounPrefixes_zulu getNounBasicPrefix_def)

lemma take_1_hd: "p \<noteq> [] \<Longrightarrow> take 1 p = [hd p]"
  by (cases p) simp_all

lemma checkNounPrefixes_find:
  assumes "find (\<lambda>(prefix, prefixInfo). startsWith r prefix) (nounPrefixes zuluAnalyzer)
             = Some (p, info)"
  shows "\<exists>bp. getNounBasicPrefix (class' info) = Some bp \<and> bp \<noteq> [] \<and> 1 < length p \<and>
     checkNounPrefixes zuluAnalyzer r =
       Some ([\<lparr>morph = [hd p], tag = Str (type info)\<rparr>,
              \<lparr>morph = bp, tag = Str (''BPre'' @ numberToString (class' info))\<rparr>],
             drop (length p) r)"
proof -
  from find_SomeD [OF assms] have "(p, info) \<in> set (nounPrefixes zuluAnalyzer)" by simp
  from nounPrefixes_entry [OF this] obtain bp
    where bp: "getNounBasicPrefix (class' info) = Some bp" "bp \<noteq> []" and p: "1 < length p"
    by blast
  from p have "take 1 p = [hd p]" by (intro take_1_hd) auto
  with bp p assms show ?thesis by (simp add: checkNounPrefixes_def)
qed

text \<open>
  Claim C3. Let \<open>pattern\<close> be the first key of the noun-prefix table, in the order
  the loop visits them, that \<open>remaining\<close> starts with. Then the body of the loop
  pushes one morpheme whose \<open>morph\<close> is the first character of \<open>pattern\<close> alone
  and, when \<open>pattern\<close> has more than one character, a second one made of the basic
  prefix of the class and the tag \<open>BPre\<close> followed by the class; it goes on with
  \<open>remaining\<close> shortened by the whole length of \<open>pattern\<close>.
\<close>

theorem nounPrefix_emits_less_than_it_consumes:
  assumes "i < length (nounPrefixes zuluAnalyzer)"
    and "nounPrefixes zuluAnalyzer ! i = (pattern, info)"
    and "startsWith remaining pattern"
    and "\<forall>j<i. \<not> startsWith remaining (fst (nounPrefixes zuluAnalyzer ! j))"
  shows "\<exists>basicPrefix.
     getNounBasicPrefix (class' info) = Some basicPrefix \<and>
     loopBody zuluAnalyzer remaining morphemes =
       Continue (drop (length pattern) remaining)
         (morphemes @
          \<lparr>morph = [hd pattern], tag = Str (type info)\<rparr> #
          (if 1 < length pattern
           then [\<lparr>morph = basicPrefix, tag = Str (''BPre'' @ numberToString (class' info))\<rparr>]
           else [])) \<and>
     length (drop (length pattern) remaining) + length pattern = length remaining"
proof -
  have "find (\<lambda>(prefix, prefixInfo). startsWith remaining prefix) (nounPrefixes zuluAnalyzer)
          = Some (pattern, info)"
    unfolding find_Some_iff
    using assms by (intro exI [of _ i]) (auto simp: case_prod_beta)
  from checkNounPrefixes_find [OF this] obtain bp where
    bp: "getNounBasicPrefix (class' info) = Some bp" "1 < length pattern"
    and c: "checkNounPrefixes zuluAnalyzer remaining =
       Some ([\<lparr>morph = [hd pattern], tag = Str (type info)\<rparr>,
              \<lparr>morph = bp, tag = Str (''BPre'' @ numberToString (class' info))\<rparr>],
             drop (length pattern) remaining)"
    by blast
  from assms(3) have "length (take (length pattern) remaining) = length pattern"
    by (simp add: startsWith_def)
  then have "length pattern \<le> length remaining" by simp
  with bp c show ?thesis
    by (simp add: loopBody_def pushAndContinue_def)
qed

theorem nounPrefix_emits_less_than_it_consumes_witness:
  "loopBody zuluAnalyzer ''izinkomo'' [] =
     Continue ''nkomo'' [\<lparr>morph = ''i'', tag = Str ''NPrePre8''\<rparr>,
                         \<lparr>morph = ''zi'', tag = Str ''BPre8''\<rparr>] \<and>
   length ''nkomo'' + length ''izi'' = length ''izinkomo''"
proof -
  have i: "(6::nat) < length (nounPrefixes zuluAnalyzer)"
    and e: "nounPrefixes zuluAnalyzer ! 6 = (''izi'', \<lparr>class' = 8, type = ''NPrePre8''\<rparr>)"
    by (simp_all add: nounPrefixes_zulu)
  have s: "startsWith ''izinkomo'' ''izi''" by (simp add: startsWith_def)
  have n: "\<forall>j<6. \<not> startsWith ''izinkomo'' (fst (nounPrefixes zuluAnalyzer ! j))"
  proof (intro allI impI)
    fix j :: nat assume "j < 6"
    then consider "j = 0" | "j = 1" | "j = 2" | "j = 3" | "j = 4" | "j = 5" by linarith
    then show "\<not> startsWith ''izinkomo'' (fst (nounPrefixes zuluAnalyzer ! j))"
      by cases (simp_all add: nounPrefixes_zulu startsWith_def)
  qed
  have b: "getNounBasicPrefix 8 = Some ''zi''" by (simp add: getNounBasicPrefix_def)
  have d: "numberToString 8 = ''8''" by code_simp
  from nounPrefix_emits_less_than_it_consumes [OF i e s n, of "[]"] b d
  show ?thesis by simp
qed

subsection \<open>What the loop emits\<close>

lemma stripLoop_zulu_eq:
  "stripLoop zuluAnalyzer r ms = stripLoopN zuluAnalyzer (length r) r ms"
  using stripLoopN_zulu_returns [of r "length r" ms] stripLoopN_Some_stripLoop by fastforce

lemma stripLoopN_emits:
  assumes step: "\<And>r ms r' ms'. r \<noteq> [] \<Longrightarrow> loopBody this r ms = Continue r' ms' \<Longrightarrow>
      \<exists>e. ms' = ms @ e \<and> (\<forall>m\<in>set e. P m)"
    and brk: "\<And>r ms ms'. r \<noteq> [] \<Longrightarrow> loopBody this r ms = Break ms' \<Longrightarrow>
      \<exists>e. ms' = ms @ e \<and> (\<forall>m\<in>set e. P m)"
    and run: "stripLoopN this n r ms = Some y"
  shows "\<exists>e. y = ms @ e \<and> (\<forall>m\<in>set e. P m)"
  using run
proof (induction n arbitrary: r ms)
  case 0
  then show ?case by (simp split: if_splits)
next
  case (Suc n)
  show ?case
  proof (cases "r = []")
    case True
    with Suc.prems show ?thesis by simp
  next
    case False
    show ?thesis
    proof (cases "loopBody this r ms")
      case (Continue r' ms')
      from step [OF False Continue] obtain e where e: "ms' = ms @ e" "\<forall>m\<in>set e. P m"
        by blast
      from Suc.prems False Continue have "stripLoopN this n r' ms' = Some y" by simp
      from Suc.IH [OF this] obtain e' where "y = ms' @ e'" "\<forall>m\<in>set e'. P m" by blast
      with e have "y = ms @ (e @ e')" "\<forall>m\<in>set (e @ e'). P m" by auto
      then show ?thesis by blast
    next
      case (Break ms')
      with Suc.prems False have "y = ms'" by simp
      with brk [OF False Break] show ?thesis by simp
    qed
  qed
qed

lemma numberToString_classes:
  "numberToString 2 = ''2''" "numberToString 3 = ''3''" "numberToString 4 = ''4''"
  "numberToString 5 = ''5''" "numberToString 6 = ''6''" "numberToString 7 = ''7''"
  "numberToString 8 = ''8''" "numberToString 9 = ''9''" "numberToString 10 = ''10''"
  "numberToString 11 = ''11''" "numberToString 14 = ''14''" "numberToString 15 = ''15''"
  by code_simp+

lemma nounPrefixes_tags:
  assumes "(p, info) \<in> set (nounPrefixes zuluAnalyzer)"
  shows "type info \<noteq> ''NPrePre1'' \<and> type info \<noteq> ''BPre1'' \<and>
         ''BPre'' @ numberToString (class' info) \<noteq> ''NPrePre1'' \<and>
         ''BPre'' @ numberToString (class' info) \<noteq> ''BPre1''"
  using assms by (auto simp: nounPrefixes_zulu numberToString_classes)

lemma checkNounPrefixes_emits:
  assumes "checkNounPrefixes zuluAnalyzer r = Some (e, r')"
  shows "\<forall>m\<in>set e. emitted_ok m"
proof -
  from assms obtain p info where f: "find (\<lambda>(prefix, prefixInfo). startsWith r prefix)
      (nounPrefixes zuluAnalyzer) = Some (p, info)"
    by (auto simp: checkNounPrefixes_def split: option.splits)
  from find_SomeD [OF f] have m: "(p, info) \<in> set (nounPrefixes zuluAnalyzer)" by simp
  from checkNounPrefixes_find [OF f] assms nounPrefixes_tags [OF m]
  show ?thesis by (auto simp: emitted_ok_def)
qed

lemma checkCommonMorphemes_emits:
  assumes "checkCommonMorphemes zuluAnalyzer r = Some (e, r')"
  shows "\<forall>m\<in>set e. emitted_ok m"
proof -
  from assms obtain p t where f: "find (\<lambda>(morpheme, t). startsWith r morpheme)
      (commonMorphemes zuluAnalyzer) = Some (p, t)" and e: "e = [\<lparr>morph = p, tag = Str t\<rparr>]"
    by (auto simp: checkCommonMorphemes_def split: option.splits)
  from find_SomeD [OF f] have "(p, t) \<in> set (commonMorphemes zuluAnalyzer)" by simp
  then have "p \<noteq> [] \<and> t \<noteq> ''NPrePre1'' \<and> t \<noteq> ''BPre1''"
    by (auto simp: commonMorphemes_zulu)
  with e show ?thesis by (simp add: emitted_ok_def)
qed

lemma indexOf_pos_nonempty: "indexOf s p = Some k \<Longrightarrow> 0 < k \<Longrightarrow> take k s \<noteq> []"
  by (cases s) (auto split: if_splits)

lemma checkVerbExtensionsFrom_emits:
  assumes "checkVerbExtensionsFrom exts r = Some (e, r')"
    and "\<forall>(ext, t)\<in>set exts. ext \<noteq> [] \<and> t \<noteq> ''NPrePre1'' \<and> t \<noteq> ''BPre1''"
  shows "\<forall>m\<in>set e. emitted_ok m"
  using assms
proof (induction exts)
  case Nil
  then show ?case by simp
next
  case (Cons x exts)
  obtain ext t where x: "x = (ext, t)" by (cases x)
  from Cons show ?case
    using indexOf_pos_nonempty [of r ext]
    by (auto simp: x emitted_ok_def split: if_splits option.splits)
qed

lemma checkVerbExtensions_emits:
  assumes "checkVerbExtensions zuluAnalyzer r = Some (e, r')"
  shows "\<forall>m\<in>set e. emitted_ok m"
  using assms unfolding checkVerbExtensions_def
  by (rule checkVerbExtensionsFrom_emits) (simp add: verbExtensions_zulu)

lemma checkVerbTermination_emits:
  assumes "checkVerbTermination r = Some (e, r')"
  shows "\<forall>m\<in>set e. emitted_ok m"
  using assms
  by (auto simp: checkVerbTermination_def Let_def emitted_ok_def split: if_splits)

lemma checkQuantifiers_emits:
  assumes "checkQuantifiers zuluAnalyzer r = Some (e, r')"
  shows "\<forall>m\<in>set e. emitted_ok m"
proof -
  from assms obtain q t where f: "find (\<lambda>(quant, t). r = quant)
      (quantifiers zuluAnalyzer) = Some (q, t)" and e: "e = [\<lparr>morph = q, tag = Str t\<rparr>]"
    by (auto simp: checkQuantifiers_def split: option.splits)
  from find_SomeD [OF f] have "(q, t) \<in> set (quantifiers zuluAnalyzer)" by simp
  then have "q \<noteq> [] \<and> t \<noteq> ''NPrePre1'' \<and> t \<noteq> ''BPre1''"
    by (auto simp: quantifiers_zulu)
  with e show ?thesis by (simp add: emitted_ok_def)
qed

lemma loopBody_zulu_emits:
  assumes "r \<noteq> []"
    and "loopBody zuluAnalyzer r ms = Continue r' ms' \<or> loopBody zuluAnalyzer r ms = Break ms'"
  shows "\<exists>e. ms' = ms @ e \<and> (\<forall>m\<in>set e. emitted_ok m)"
proof (cases "checkNounPrefixes zuluAnalyzer r")
  case (Some a)
  with assms checkNounPrefixes_emits [of r "fst a" "snd a"] show ?thesis
    by (auto simp: loopBody_def pushAndContinue_def)
next
  case n1: None
  show ?thesis
  proof (cases "checkCommonMorphemes zuluAnalyzer r")
    case (Some a)
    with n1 assms checkCommonMorphemes_emits [of r "fst a" "snd a"] show ?thesis
      by (auto simp: loopBody_def pushAndContinue_def)
  next
    case n2: None
    show ?thesis
    proof (cases "checkVerbExtensions zuluAnalyzer r")
      case (Some a)
      with n1 n2 assms checkVerbExtensions_emits [of r "fst a" "snd a"] show ?thesis
        by (auto simp: loopBody_def pushAndContinue_def)
    next
      case n3: None
      show ?thesis
      proof (cases "checkVerbTermination r")
        case (Some a)
        with n1 n2 n3 assms checkVerbTermination_emits [of r "fst a" "snd a"] show ?thesis
          by (auto simp: loopBody_def pushAndContinue_def)
      next
        case n4: None
        show ?thesis
        proof (cases "checkQuantifiers zuluAnalyzer r")
          case (Some a)
          with n1 n2 n3 n4 assms checkQuantifiers_emits [of r "fst a" "snd a"] show ?thesis
            by (auto simp: loopBody_def pushAndContinue_def)
        next
          case None
          with n1 n2 n3 n4 assms show ?thesis
            by (auto simp: loopBody_def emitted_ok_def)
        qed
      qed
    qed
  qed
qed

lemma stripLoop_zulu_emits:
  assumes "stripLoop zuluAnalyzer r ms = Some y"
  shows "\<exists>e. y = ms @ e \<and> (\<forall>m\<in>set e. emitted_ok m)"
proof -
  from assms have "stripLoopN zuluAnalyzer (length r) r ms = Some y"
    by (simp add: stripLoop_zulu_eq)
  then show ?thesis
    by (rule stripLoopN_emits [rotated 2]) (use loopBody_zulu_emits in blast)+
qed

subsection \<open>Properties of the morphemes returned\<close>

lemma toLowerCase_Nil_iff: "toLowerCase w = [] \<longleftrightarrow> w = []"
  by (simp add: toLowerCase_def)

lemma isPunctuation_nonempty: "isPunctuation w \<Longrightarrow> w \<noteq> []"
  by (auto simp: isPunctuation_def)

lemma analyzeWord_loop_case:
  assumes "analyzeWord this w = Some ms"
    and "\<not> (isPunctuation w \<or> truthy (getProperty (vocabulary this) (toLowerCase w))
      \<or> (startsUpperCase w \<and> 2 < length w))"
  obtains y where "stripLoop this (toLowerCase w) [] = Some y"
    and "ms = (if length y > 0 then y else [\<lparr>morph = w, tag = Str ''Unknown''\<rparr>])"
proof -
  from assms(2) have "\<not> isPunctuation w"
    and "\<not> truthy (getProperty (vocabulary this) (toLowerCase w))"
    and "\<not> (startsUpperCase w \<and> length w > 2)"
    by simp_all
  then have "analyzeWord this w = map_option
        (\<lambda>morphemes. if length morphemes > 0 then morphemes
                      else [\<lparr>morph = w, tag = Str ''Unknown''\<rparr>])
        (stripLoop this (toLowerCase w) [])"
    unfolding analyzeWord_def Let_def by (simp only: if_False)
  with assms(1) show ?thesis using that by auto
qed

text \<open>
  Claim C9. When the word is not empty, no morpheme of the result has an empty
  \<open>morph\<close>; a result that holds an empty \<open>morph\<close> is the single \<open>Unknown\<close>
  morpheme of the empty word.
\<close>

theorem analyzeWord_morphs_nonempty:
  assumes "analyzeWord zuluAnalyzer w = Some ms"
  shows "(w \<noteq> [] \<longrightarrow> (\<forall>m\<in>set ms. morph m \<noteq> [])) \<and>
         ((\<exists>m\<in>set ms. morph m = []) \<longrightarrow>
            w = [] \<and> ms = [\<lparr>morph = [], tag = Str ''Unknown''\<rparr>])"
proof -
  have ne: "\<forall>m\<in>set ms. morph m \<noteq> []" if w: "w \<noteq> []"
  proof (cases "isPunctuation w \<or> truthy (getProperty (vocabulary zuluAnalyzer) (toLowerCase w))
      \<or> (startsUpperCase w \<and> 2 < length w)")
    case True
    with assms w show ?thesis
      by (auto simp: analyzeWord_def Let_def toLowerCase_Nil_iff split: if_splits)
  next
    case False
    with assms obtain y where y: "stripLoop zuluAnalyzer (toLowerCase w) [] = Some y"
      and ms: "ms = (if length y > 0 then y else [\<lparr>morph = w, tag = Str ''Unknown''\<rparr>])"
      by (rule analyzeWord_loop_case)
    from stripLoop_zulu_emits [OF y] have "\<forall>m\<in>set y. morph m \<noteq> []"
      by (auto simp: emitted_ok_def)
    with ms w show ?thesis by auto
  qed
  moreover have "ms = [\<lparr>morph = [], tag = Str ''Unknown''\<rparr>]" if "w = []"
    using that assms analyzeWord_empty by simp
  ultimately show ?thesis by blast
qed

theorem analyzeWord_morphs_nonempty_witness:
  "analyzeWord zuluAnalyzer ''umuntu'' =
     Some [\<lparr>morph = ''u'', tag = Str ''NPrePre3''\<rparr>, \<lparr>morph = ''mu'', tag = Str ''BPre3''\<rparr>,
           \<lparr>morph = ''ntu'', tag = Str ''NStem''\<rparr>] \<and>
   ''umuntu'' \<noteq> [] \<and>
   list_all (\<lambda>m. morph m \<noteq> [])
     [\<lparr>morph = ''u'', tag = Str ''NPrePre3''\<rparr>, \<lparr>morph = ''mu'', tag = Str ''BPre3''\<rparr>,
      \<lparr>morph = ''ntu'', tag = Str ''NStem''\<rparr>]"
proof -
  have e: "analyzeWord zuluAnalyzer ''umuntu'' =
     Some [\<lparr>morph = ''u'', tag = Str ''NPrePre3''\<rparr>, \<lparr>morph = ''mu'', tag = Str ''BPre3''\<rparr>,
           \<lparr>morph = ''ntu'', tag = Str ''NStem''\<rparr>]"
    by code_simp
  from analyzeWord_morphs_nonempty [OF e] e show ?thesis
    by (simp add: list_all_iff)
qed

lemma checkNounPrefixes_umu:
  assumes "startsWith r ''umu''"
  shows "checkNounPrefixes zuluAnalyzer r =
     Some ([\<lparr>morph = ''u'', tag = Str ''NPrePre3''\<rparr>, \<lparr>morph = ''mu'', tag = Str ''BPre3''\<rparr>],
           drop 3 r)"
proof -
  have "length ''umu'' = 3" by simp
  with assms show ?thesis
    by (simp add: checkNounPrefixes_def nounPrefixes_zulu getNounBasicPrefix_def
        numberToString_3 del: list.size)
qed

lemma loopBody_umu:
  assumes "startsWith r ''umu''"
  shows "loopBody zuluAnalyzer r ms =
     Continue (drop 3 r)
       (ms @ [\<lparr>morph = ''u'', tag = Str ''NPrePre3''\<rparr>, \<lparr>morph = ''mu'', tag = Str ''BPre3''\<rparr>])"
  by (simp add: loopBody_def pushAndContinue_def checkNounPrefixes_umu [OF assms])

lemma vocabulary_tags:
  "getProperty (vocabulary zuluAnalyzer) k \<noteq> Str ''NPrePre1'' \<and>
   getProperty (vocabulary zuluAnalyzer) k \<noteq> Str ''BPre1''"
proof (cases "map_of (vocabulary zuluAnalyzer) k")
  case None
  then show ?thesis by (simp add: getProperty_def objectPrototypeGet_def)
next
  case (Some v)
  then have "(k, v) \<in> set (vocabulary zuluAnalyzer)" by (rule map_of_SomeD)
  then have "v \<noteq> ''NPrePre1'' \<and> v \<noteq> ''BPre1''" by (auto simp: vocabulary_zulu)
  with Some show ?thesis by (simp add: getProperty_def)
qed

lemma analyzeWord_tags:
  assumes "analyzeWord zuluAnalyzer w = Some ms" "m \<in> set ms"
  shows "tag m \<noteq> Str ''NPrePre1'' \<and> tag m \<noteq> Str ''BPre1''"
proof (cases "isPunctuation w \<or> truthy (getProperty (vocabulary zuluAnalyzer) (toLowerCase w))
      \<or> (startsUpperCase w \<and> 2 < length w)")
  case True
  with assms vocabulary_tags [of "toLowerCase w"] show ?thesis
    by (auto simp: analyzeWord_def Let_def split: if_splits)
next
  case False
  with assms(1) obtain y where y: "stripLoop zuluAnalyzer (toLowerCase w) [] = Some y"
    and ms: "ms = (if length y > 0 then y else [\<lparr>morph = w, tag = Str ''Unknown''\<rparr>])"
    by (rule analyzeWord_loop_case)
  from stripLoop_zulu_emits [OF y]
  have "\<forall>m\<in>set y. tag m \<noteq> Str ''NPrePre1'' \<and> tag m \<noteq> Str ''BPre1''"
    by (auto simp: emitted_ok_def)
  with ms assms(2) show ?thesis by (auto split: if_splits)
qed

text \<open>
  Claim C4. The table is written with the key \<open>umu\<close> twice; the object it builds has
  that key once, at the first place, with the value of class 3. So whenever
  \<open>remaining\<close> starts with \<open>umu\<close> the body of the loop pushes \<open>u\<close> tagged
  \<open>NPrePre3\<close> and \<open>mu\<close> tagged \<open>BPre3\<close>, and a word that passes the three
  fast paths and whose lower-case form starts with \<open>umu\<close> has these two as its first
  morphemes. No call of \<open>analyzeWord\<close> returns a morpheme tagged \<open>NPrePre1\<close> or
  \<open>BPre1\<close>.
\<close>

theorem umu_is_class_3:
  "map_of (nounPrefixes zuluAnalyzer) ''umu'' = Some \<lparr>class' = 3, type = ''NPrePre3''\<rparr> \<and>
   length (filter (\<lambda>(p, info). p = ''umu'') (nounPrefixes zuluAnalyzer)) = 1 \<and>
   (startsWith remaining ''umu'' \<longrightarrow>
      loopBody zuluAnalyzer remaining morphemes =
        Continue (drop 3 remaining)
          (morphemes @ [\<lparr>morph = ''u'', tag = Str ''NPrePre3''\<rparr>,
                        \<lparr>morph = ''mu'', tag = Str ''BPre3''\<rparr>])) \<and>
   (\<not> isPunctuation w \<and> \<not> truthy (getProperty (vocabulary zuluAnalyzer) (toLowerCase w)) \<and>
    \<not> (startsUpperCase w \<and> 2 < length w) \<and> startsWith (toLowerCase w) ''umu'' \<longrightarrow>
      (\<exists>rest. analyzeWord zuluAnalyzer w =
         Some (\<lparr>morph = ''u'', tag = Str ''NPrePre3''\<rparr> #
               \<lparr>morph = ''mu'', tag = Str ''BPre3''\<rparr> # rest))) \<and>
   (\<forall>ms. analyzeWord zuluAnalyzer w' = Some ms \<longrightarrow>
      (\<forall>m\<in>set ms. tag m \<noteq> Str ''NPrePre1'' \<and> tag m \<noteq> Str ''BPre1''))"
proof (intro conjI impI allI)
  show "map_of (nounPrefixes zuluAnalyzer) ''umu'' = Some \<lparr>class' = 3, type = ''NPrePre3''\<rparr>"
    by (simp add: nounPrefixes_zulu)
  show "length (filter (\<lambda>(p, info). p = ''umu'') (nounPrefixes zuluAnalyzer)) = 1"
    by (simp add: nounPrefixes_zulu)
next
  assume "startsWith remaining ''umu''"
  then show "loopBody zuluAnalyzer remaining morphemes =
        Continue (drop 3 remaining)
          (morphemes @ [\<lparr>morph = ''u'', tag = Str ''NPrePre3''\<rparr>,
                        \<lparr>morph = ''mu'', tag = Str ''BPre3''\<rparr>])"
    by (rule loopBody_umu)
next
  assume a: "\<not> isPunctuation w \<and> \<not> truthy (getProperty (vocabulary zuluAnalyzer) (toLowerCase w)) \<and>
    \<not> (startsUpperCase w \<and> 2 < length w) \<and> startsWith (toLowerCase w) ''umu''"
  let ?r = "toLowerCase w"
  let ?two = "[\<lparr>morph = ''u'', tag = Str ''NPrePre3''\<rparr>, \<lparr>morph = ''mu'', tag = Str ''BPre3''\<rparr>]"
  from a have s: "startsWith ?r ''umu''" by simp
  then have ne: "?r \<noteq> []" by (auto simp: startsWith_def)
  obtain y where y: "stripLoop zuluAnalyzer (drop 3 ?r) ?two = Some y"
    using stripLoop_zulu_returns by blast
  from stripLoop_zulu_emits [OF y] obtain e where e: "y = ?two @ e" by blast
  have "stripLoop zuluAnalyzer ?r [] = Some y"
    using ne y by (subst stripLoop.simps) (simp add: loopBody_umu [OF s])
  with a e have "analyzeWord zuluAnalyzer w = Some (?two @ e)"
    by (simp add: analyzeWord_def Let_def)
  then show "\<exists>rest. analyzeWord zuluAnalyzer w =
         Some (\<lparr>morph = ''u'', tag = Str ''NPrePre3''\<rparr> #
               \<lparr>morph = ''mu'', tag = Str ''BPre3''\<rparr> # rest)"
    by simp
next
  fix ms
  assume "analyzeWord zuluAnalyzer w' = Some ms"
  then show "\<forall>m\<in>set ms. tag m \<noteq> Str ''NPrePre1'' \<and> tag m \<noteq> Str ''BPre1''"
    using analyzeWord_tags by blast
qed

theorem umu_is_class_3_witness:
  "startsWith ''umuntu'' ''umu'' \<and>
   loopBody zuluAnalyzer ''umuntu'' [] =
     Continue ''ntu'' [\<lparr>morph = ''u'', tag = Str ''NPrePre3''\<rparr>,
                       \<lparr>morph = ''mu'', tag = Str ''BPre3''\<rparr>] \<and>
   \<not> isPunctuation ''uMuntu'' \<and>
   \<not> truthy (getProperty (vocabulary zuluAnalyzer) (toLowerCase ''uMuntu'')) \<and>
   \<not> (startsUpperCase ''uMuntu'' \<and> 2 < length ''uMuntu'') \<and>
   startsWith (toLowerCase ''uMuntu'') ''umu'' \<and>
   analyzeWord zuluAnalyzer ''uMuntu'' =
     Some [\<lparr>morph = ''u'', tag = Str ''NPrePre3''\<rparr>, \<lparr>morph = ''mu'', tag = Str ''BPre3''\<rparr>,
           \<lparr>morph = ''ntu'', tag = Str ''NStem''\<rparr>] \<and>
   list_all (\<lambda>m. tag m \<noteq> Str ''NPrePre1'' \<and> tag m \<noteq> Str ''BPre1'')
     [\<lparr>morph = ''u'', tag = Str ''NPrePre3''\<rparr>, \<lparr>morph = ''mu'', tag = Str ''BPre3''\<rparr>,
      \<lparr>morph = ''ntu'', tag = Str ''NStem''\<rparr>]"
proof -
  have s: "startsWith ''umuntu'' ''umu''" by (simp add: startsWith_def)
  have l: "toLowerCase ''uMuntu'' = ''umuntu''" by code_simp
  have p: "\<not> isPunctuation ''uMuntu''" by (simp add: isPunctuation_def)
  have v: "\<not> truthy (getProperty (vocabulary zuluAnalyzer) ''umuntu'')"
    by (simp add: vocabulary_zulu getProperty_def objectPrototypeGet_def)
  have u: "\<not> (startsUpperCase ''uMuntu'' \<and> 2 < length ''uMuntu'')"
    by (simp add: startsUpperCase_def code_unit_def)
  have e: "analyzeWord zuluAnalyzer ''uMuntu'' =
     Some [\<lparr>morph = ''u'', tag = Str ''NPrePre3''\<rparr>, \<lparr>morph = ''mu'', tag = Str ''BPre3''\<rparr>,
           \<lparr>morph = ''ntu'', tag = Str ''NStem''\<rparr>]"
    by code_simp
  from umu_is_class_3 [of "''umuntu''" "[]" "''uMuntu''" "''uMuntu''"] s l p v u e show ?thesis
    by (simp add: list_all_iff)
qed

text \<open>
  Claim C10. \<open>getNounBasicPrefix\<close> returns a non-empty string on each of the thirteen
  classes 1 to 11, 14 and 15. Every entry of the noun-prefix table has a key of more
  than one character and one of these classes, so the noun-prefix rule, whenever it
  applies, pushes exactly two morphemes: the branch that skips the second one is never
  taken.
\<close>

theorem basic_prefix_always_found:
  "list_all (\<lambda>c. \<exists>bp. getNounBasicPrefix c = Some bp \<and> bp \<noteq> [])
     [1, 2, 3, 4, 5, 6, 7, 8, 9, 10, 11, 14, 15] \<and>
   (\<forall>(p, info)\<in>set (nounPrefixes zuluAnalyzer).
      1 < length p \<and> class' info \<in> set [1, 2, 3, 4, 5, 6, 7, 8, 9, 10, 11, 14, 15]) \<and>
   (\<forall>ms r'. checkNounPrefixes zuluAnalyzer r = Some (ms, r') \<longrightarrow>
      length ms = 2 \<and>
      (\<exists>p info bp. (p, info) \<in> set (nounPrefixes zuluAnalyzer) \<and>
         getNounBasicPrefix (class' info) = Some bp \<and> bp \<noteq> [] \<and>
         ms = [\<lparr>morph = [hd p], tag = Str (type info)\<rparr>,
               \<lparr>morph = bp, tag = Str (''BPre'' @ numberToString (class' info))\<rparr>]))"
proof (intro conjI)
  show "list_all (\<lambda>c. \<exists>bp. getNounBasicPrefix c = Some bp \<and> bp \<noteq> [])
     [1, 2, 3, 4, 5, 6, 7, 8, 9, 10, 11, 14, 15]"
    by (simp add: getNounBasicPrefix_def)
  show "\<forall>(p, info)\<in>set (nounPrefixes zuluAnalyzer).
      1 < length p \<and> class' info \<in> set [1, 2, 3, 4, 5, 6, 7, 8, 9, 10, 11, 14, 15]"
    by (simp add: nounPrefixes_zulu)
  show "\<forall>ms r'. checkNounPrefixes zuluAnalyzer r = Some (ms, r') \<longrightarrow>
      length ms = 2 \<and>
      (\<exists>p info bp. (p, info) \<in> set (nounPrefixes zuluAnalyzer) \<and>
         getNounBasicPrefix (class' info) = Some bp \<and> bp \<noteq> [] \<and>
         ms = [\<lparr>morph = [hd p], tag = Str (type info)\<rparr>,
               \<lparr>morph = bp, tag = Str (''BPre'' @ numberToString (class' info))\<rparr>])"
  proof (intro allI impI)
  fix ms r'
  assume c: "checkNounPrefixes zuluAnalyzer r = Some (ms, r')"
  then obtain p info where f: "find (\<lambda>(prefix, prefixInfo). startsWith r prefix)
      (nounPrefixes zuluAnalyzer) = Some (p, info)"
    by (auto simp: checkNounPrefixes_def split: option.splits)
  from find_SomeD [OF f] have m: "(p, info) \<in> set (nounPrefixes zuluAnalyzer)" by simp
  from checkNounPrefixes_find [OF f] c obtain bp where
    "getNounBasicPrefix (class' info) = Some bp" "bp \<noteq> []"
    "ms = [\<lparr>morph = [hd p], tag = Str (type info)\<rparr>,
           \<lparr>morph = bp, tag = Str (''BPre'' @ numberToString (class' info))\<rparr>]"
    by auto
  with m show "length ms = 2 \<and>
      (\<exists>p info bp. (p, info) \<in> set (nounPrefixes zuluAnalyzer) \<and>
         getNounBasicPrefix (class' info) = Some bp \<and> bp \<noteq> [] \<and>
         ms = [\<lparr>morph = [hd p], tag = Str (type info)\<rparr>,
               \<lparr>morph = bp, tag = Str (''BPre'' @ numberToString (class' info))\<rparr>])"
    by auto
  qed
qed

theorem basic_prefix_always_found_witness:
  "checkNounPrefixes zuluAnalyzer ''ukudla'' =
     Some ([\<lparr>morph = ''u'', tag = Str ''NPrePre15''\<rparr>, \<lparr>morph = ''ku'', tag = Str ''BPre15''\<rparr>],
           ''dla'') \<and>
   length [\<lparr>morph = ''u'', tag = Str ''NPrePre15''\<rparr>, \<lparr>morph = ''ku'', tag = Str ''BPre15''\<rparr>] = 2 \<and>
   getNounBasicPrefix 15 = Some ''ku''"
proof -
  have e: "checkNounPrefixes zuluAnalyzer ''ukudla'' =
     Some ([\<lparr>morph = ''u'', tag = Str ''NPrePre15''\<rparr>, \<lparr>morph = ''ku'', tag = Str ''BPre15''\<rparr>],
           ''dla'')"
    by code_simp
  from basic_prefix_always_found [of "''ukudla''"] e show ?thesis
    by (simp add: getNounBasicPrefix_def)
qed

subsection \<open>The verb-extension rule\<close>









subsection \<open>The vocabulary fast path\<close>

text \<open>
  The fast path is taken on the keys the vocabulary declares and on the names of the
  members of \<open>Object.prototype\<close>. The lower-case form of a word is never one of
  the two capitalised keys.
\<close>

lemma vocabulary_fast_path_iff:
  "truthy (getProperty (vocabulary zuluAnalyzer) key) \<longleftrightarrow>
     key \<in> fst ` set (vocabulary zuluAnalyzer) \<or> objectPrototypeGet key \<noteq> Undefined"
proof (cases "map_of (vocabulary zuluAnalyzer) key")
  case None
  then have "key \<notin> fst ` set (vocabulary zuluAnalyzer)" by (simp add: map_of_eq_None_iff)
  moreover have "truthy (objectPrototypeGet key) \<longleftrightarrow> objectPrototypeGet key \<noteq> Undefined"
    by (simp add: objectPrototypeGet_def)
  ultimately show ?thesis using None by (simp add: getProperty_def)
next
  case (Some v)
  then have m: "(key, v) \<in> set (vocabulary zuluAnalyzer)" by (rule map_of_SomeD)
  then have "v \<noteq> []" by (auto simp: vocabulary_zulu)
  moreover from m have "key \<in> fst ` set (vocabulary zuluAnalyzer)" by force
  ultimately show ?thesis using Some by (simp add: getProperty_def)
qed

lemma toLowerCaseUnit_not_upper:
  "\<not> (65 \<le> code_unit (toLowerCaseUnit c) \<and> code_unit (toLowerCaseUnit c) \<le> 90)"
  by (auto simp: toLowerCaseUnit_def code_unit_def Let_def)

lemma toLowerCase_misses_capitalised_keys:
  "toLowerCase w \<noteq> ''Afrika'' \<and> toLowerCase w \<noteq> ''Ningizimu''"
proof -
  have "\<And>cs. toLowerCase w \<noteq> CHR ''A'' # cs" "\<And>cs. toLowerCase w \<noteq> CHR ''N'' # cs"
  proof -
    fix cs
    show "toLowerCase w \<noteq> CHR ''A'' # cs"
    proof
      assume "toLowerCase w = CHR ''A'' # cs"
      then obtain c where "toLowerCaseUnit c = CHR ''A''"
        by (cases w) (auto simp: toLowerCase_def)
      with toLowerCaseUnit_not_upper [of c] show False by (simp add: code_unit_def)
    qed
    show "toLowerCase w \<noteq> CHR ''N'' # cs"
    proof
      assume "toLowerCase w = CHR ''N'' # cs"
      then obtain c where "toLowerCaseUnit c = CHR ''N''"
        by (cases w) (auto simp: toLowerCase_def)
      with toLowerCaseUnit_not_upper [of c] show False by (simp add: code_unit_def)
    qed
  qed
  then show ?thesis by simp
qed

text \<open>
  Claim C2 fails on the code. The vocabulary is a plain object and the fast path reads
  \<open>this.vocabulary[remaining]\<close>, which also finds the properties every object
  inherits. The word \<open>constructor\<close> is no key of the vocabulary and is its own
  lower-case form, yet the fast path returns it, tagged with the function
  \<open>Object\<close>; \<open>analyzeText\<close> prints that function's source text as the tag.
\<close>

theorem vocabulary_hits_inherited_property:
  "map_of (vocabulary zuluAnalyzer) ''constructor'' = None \<and>
   toLowerCase ''constructor'' = ''constructor'' \<and>
   getProperty (vocabulary zuluAnalyzer) ''constructor'' = NativeFunction ''Object'' \<and>
   analyzeWord zuluAnalyzer ''constructor'' =
     Some [\<lparr>morph = ''constructor'', tag = NativeFunction ''Object''\<rparr>] \<and>
   analyzeText zuluAnalyzer ''constructor'' =
     Some ''<LINE 1>constructor[function Object() { [native code] }]''"
proof -
  have a: "map_of (vocabulary zuluAnalyzer) ''constructor'' = None"
    by (simp add: vocabulary_zulu)
  have b: "toLowerCase ''constructor'' = ''constructor''" by code_simp
  have c: "getProperty (vocabulary zuluAnalyzer) ''constructor'' = NativeFunction ''Object''"
    by (simp add: getProperty_def a objectPrototypeGet_def)
  have d: "analyzeWord zuluAnalyzer ''constructor'' =
     Some [\<lparr>morph = ''constructor'', tag = NativeFunction ''Object''\<rparr>]"
    by code_simp
  have e: "analyzeText zuluAnalyzer ''constructor'' =
     Some ''<LINE 1>constructor[function Object() { [native code] }]''"
    by code_simp
  from a b c d e show ?thesis by simp
qed

subsection \<open>Dependence on the state of the process\<close>

lemma stripLoop_Some_stripLoopN:
  fixes a :: "'a analyzer_scheme"
  assumes "stripLoop a r ms = Some y"
  shows "\<exists>n. stripLoopN a n r ms = Some y"
proof (rule stripLoop.raw_induct [rotated 1, OF assms])
  fix loop :: "'a analyzer_scheme \<Rightarrow> string \<Rightarrow> morpheme list \<Rightarrow> morpheme list option"
    and b :: "'a analyzer_scheme" and r ms y
  assume IH: "\<And>b r ms y. loop b r ms = Some y \<Longrightarrow> \<exists>n. stripLoopN b n r ms = Some y"
    and eq: "(if 0 < length r
               then case loopBody b r ms of
                      Continue remaining' morphemes' \<Rightarrow> loop b remaining' morphemes'
                    | Break morphemes' \<Rightarrow> Some morphemes'
               else Some ms) = Some y"
  show "\<exists>n. stripLoopN b n r ms = Some y"
  proof (cases "r = []")
    case True
    with eq have "stripLoopN b 0 r ms = Some y" by simp
    then show ?thesis by blast
  next
    case False
    show ?thesis
    proof (cases "loopBody b r ms")
      case (Continue r' ms')
      with eq False have "loop b r' ms' = Some y" by simp
      from IH [OF this] obtain n where "stripLoopN b n r' ms' = Some y" by blast
      with False Continue have "stripLoopN b (Suc n) r ms = Some y" by simp
      then show ?thesis by blast
    next
      case (Break ms')
      with eq False have "stripLoopN b (Suc 0) r ms = Some y" by simp
      then show ?thesis by blast
    qed
  qed
qed

text \<open>With no property defined on \<open>Object.prototype\<close> the functions that take its
  state are the ones above.\<close>

lemma stripLoopN_Some_whileRemaining:
  "stripLoopN this n r ms = Some y \<Longrightarrow> whileRemaining (loopBody this) r ms = Some y"
proof (induction n arbitrary: r ms)
  case 0
  then show ?case by (subst whileRemaining.simps) (simp split: if_splits)
next
  case (Suc n)
  then show ?case
    by (subst whileRemaining.simps) (auto split: if_splits loopStep.splits)
qed

lemma whileRemaining_Some_stripLoop:
  fixes this :: "'a analyzer_scheme"
  assumes "whileRemaining body r ms = Some y" and "body = loopBody this"
  shows "stripLoop this r ms = Some y"
proof -
  have "body = loopBody this \<longrightarrow> stripLoop this r ms = Some y"
  proof (rule whileRemaining.raw_induct [rotated 1, OF assms(1)])
    fix loop :: "(string \<Rightarrow> morpheme list \<Rightarrow> loopStep) \<Rightarrow> string \<Rightarrow> morpheme list
        \<Rightarrow> morpheme list option"
      and b r ms y
    assume IH: "\<And>b r ms y. loop b r ms = Some y \<Longrightarrow>
        b = loopBody this \<longrightarrow> stripLoop this r ms = Some y"
      and eq: "(if 0 < length r
               then case b r ms of
                      Continue remaining' morphemes' \<Rightarrow> loop b remaining' morphemes'
                    | Break morphemes' \<Rightarrow> Some morphemes'
               else Some ms) = Some y"
    show "b = loopBody this \<longrightarrow> stripLoop this r ms = Some y"
    proof
      assume b: "b = loopBody this"
      show "stripLoop this r ms = Some y"
      proof (cases "r = []")
        case True
        with eq show ?thesis by (subst stripLoop.simps) simp
      next
        case False
        show ?thesis
        proof (cases "loopBody this r ms")
          case (Continue r' ms')
          with eq False b have "loop b r' ms' = Some y" by simp
          from IH [OF this] b have "stripLoop this r' ms' = Some y" by simp
          with False Continue show ?thesis by (subst stripLoop.simps) simp
        next
          case (Break ms')
          with eq False b show ?thesis by (subst stripLoop.simps) simp
        qed
      qed
    qed
  qed
  with assms(2) show ?thesis by simp
qed

lemma whileRemaining_loopBody:
  "whileRemaining (loopBody this) r ms = stripLoop this r ms"
proof (cases "stripLoop this r ms")
  case None
  show ?thesis
  proof (cases "whileRemaining (loopBody this) r ms")
    case (Some y)
    then have "stripLoop this r ms = Some y"
      by (rule whileRemaining_Some_stripLoop) simp
    with None show ?thesis by simp
  qed (simp add: None)
next
  case (Some y)
  then obtain n where "stripLoopN this n r ms = Some y"
    using stripLoop_Some_stripLoopN by blast
  then have "whileRemaining (loopBody this) r ms = Some y"
    by (rule stripLoopN_Some_whileRemaining)
  with Some show ?thesis by simp
qed

lemma objectPrototypeGetIn_Nil: "objectPrototypeGetIn [] key = objectPrototypeGet key"
  by (simp add: objectPrototypeGetIn_def)

lemma getPropertyIn_Nil: "getPropertyIn [] obj key = getProperty obj key"
  by (simp only: getPropertyIn_def getProperty_def objectPrototypeGetIn_Nil)

lemma getNounBasicPrefixIn_Nil: "getNounBasicPrefixIn [] c = getNounBasicPrefix c"
  by (simp add: getNounBasicPrefixIn_def split: option.splits)

lemma checkNounPrefixesIn_Nil: "checkNounPrefixesIn [] this r = checkNounPrefixes this r"
  by (simp only: checkNounPrefixesIn_def checkNounPrefixes_def getNounBasicPrefixIn_Nil)

lemma loopBodyIn_Nil: "loopBodyIn [] this = loopBody this"
  by (intro ext) (simp only: loopBodyIn_def loopBody_def checkNounPrefixesIn_Nil)

lemma analyzeWordIn_Nil: "analyzeWordIn [] this w = analyzeWord this w"
  by (simp only: analyzeWordIn_def analyzeWord_def stripLoopIn_def loopBodyIn_Nil
      whileRemaining_loopBody getPropertyIn_Nil)






subsection \<open>The text format\<close>

text \<open>\<open>split\<close> cuts at every separator and nowhere else: joining the pieces
  with the separator gives the string back, and no piece holds the separator.\<close>

lemma split_not_Nil: "split s sep \<noteq> []"
  by (induction s) (auto split: list.splits)

lemma join_Cons_Cons: "join ((c # piece) # pieces) sep = c # join (piece # pieces) sep"
  by (cases pieces) simp_all

lemma join_split: "join (split s sep) [sep] = s"
proof (induction s)
  case Nil
  show ?case by simp
next
  case (Cons c cs)
  obtain piece pieces where p: "split cs sep = piece # pieces"
    using split_not_Nil [of cs sep] by (cases "split cs sep") auto
  with Cons show ?case by (simp add: join_Cons_Cons)
qed

lemma split_pieces: "piece \<in> set (split s sep) \<Longrightarrow> sep \<notin> set piece"
proof (induction s arbitrary: piece)
  case Nil
  then show ?case by simp
next
  case (Cons c cs)
  obtain p ps where p: "split cs sep = p # ps"
    using split_not_Nil [of cs sep] by (cases "split cs sep") auto
  with Cons show ?case by (auto split: if_splits)
qed

lemma dropWhile_all: "(\<forall>x\<in>set xs. P x) \<Longrightarrow> dropWhile P xs = []"
  by (simp add: dropWhile_eq_Nil_conv)

lemma takeWhile_all: "(\<forall>x\<in>set xs. P x) \<Longrightarrow> takeWhile P xs = xs"
  by (simp add: takeWhile_eq_all_conv)

lemma trim_Nil_iff: "trim s = [] \<longleftrightarrow> isBlank s"
proof -
  have "dropWhile isWhiteSpace s = [] \<longleftrightarrow> list_all isWhiteSpace s"
    by (simp add: dropWhile_eq_Nil_conv list_all_iff)
  moreover have "dropWhile isWhiteSpace (rev (dropWhile isWhiteSpace s)) = []
      \<longleftrightarrow> dropWhile isWhiteSpace s = []"
  proof
    assume a: "dropWhile isWhiteSpace (rev (dropWhile isWhiteSpace s)) = []"
    show "dropWhile isWhiteSpace s = []"
    proof (rule ccontr)
      assume n: "dropWhile isWhiteSpace s \<noteq> []"
      then have "\<not> isWhiteSpace (hd (dropWhile isWhiteSpace s))" by (rule hd_dropWhile)
      moreover from n have "hd (dropWhile isWhiteSpace s) \<in> set (dropWhile isWhiteSpace s)"
        by simp
      ultimately show False using a by (auto simp: dropWhile_eq_Nil_conv)
    qed
  next
    assume "dropWhile isWhiteSpace s = []"
    then show "dropWhile isWhiteSpace (rev (dropWhile isWhiteSpace s)) = []"
      by (simp only: rev.simps dropWhile.simps)
  qed
  ultimately show ?thesis by (simp add: trim_def isBlank_def)
qed

lemma wordsOf_blank:
  assumes "list_all isWhiteSpace t"
  shows "wordsOf t = []"
proof -
  from assms have "dropWhile isWhiteSpace t = []"
    by (intro dropWhile_all) (simp add: list_all_iff)
  then show ?thesis by (subst wordsOf.simps) (simp only: list.case)
qed

lemma wordsOf_dropWhile: "wordsOf (dropWhile isWhiteSpace s) = wordsOf s"
  by (subst wordsOf.simps, subst (2) wordsOf.simps) (simp add: dropWhile_idem)

lemma takeWhile_append_blank:
  assumes "list_all isWhiteSpace t"
  shows "takeWhile (\<lambda>c. \<not> isWhiteSpace c) (d @ t) = takeWhile (\<lambda>c. \<not> isWhiteSpace c) d"
proof (cases "\<forall>x\<in>set d. \<not> isWhiteSpace x")
  case True
  have a: "takeWhile (\<lambda>c. \<not> isWhiteSpace c) t = []"
    using assms by (cases t) simp_all
  have b: "takeWhile (\<lambda>c. \<not> isWhiteSpace c) (d @ t) =
      d @ takeWhile (\<lambda>c. \<not> isWhiteSpace c) t"
    using True by (intro takeWhile_append2) simp
  have c: "takeWhile (\<lambda>c. \<not> isWhiteSpace c) d = d"
    using True by (rule takeWhile_all)
  show ?thesis by (simp only: a b c append_Nil2)
next
  case False
  then show ?thesis by (auto simp: takeWhile_append1)
qed

lemma dropWhile_append_blank:
  assumes "list_all isWhiteSpace t"
  shows "dropWhile (\<lambda>c. \<not> isWhiteSpace c) (d @ t) = dropWhile (\<lambda>c. \<not> isWhiteSpace c) d @ t"
proof (cases "\<forall>x\<in>set d. \<not> isWhiteSpace x")
  case True
  have a: "dropWhile (\<lambda>c. \<not> isWhiteSpace c) t = t"
    using assms by (cases t) simp_all
  have b: "dropWhile (\<lambda>c. \<not> isWhiteSpace c) (d @ t) =
      dropWhile (\<lambda>c. \<not> isWhiteSpace c) t"
    using True by (intro dropWhile_append2) simp
  have c: "dropWhile (\<lambda>c. \<not> isWhiteSpace c) d = []"
    using True by (rule dropWhile_all)
  show ?thesis by (simp only: a b c append_Nil)
next
  case False
  then show ?thesis by (auto simp: dropWhile_append1)
qed

lemma wordsOf_append_blank:
  "list_all isWhiteSpace t \<Longrightarrow> wordsOf (xs @ t) = wordsOf xs"
proof (induction xs rule: wordsOf.induct)
  case (1 s)
  show ?case
  proof (cases "dropWhile isWhiteSpace s")
    case Nil
    then have b: "list_all isWhiteSpace s"
      by (simp add: dropWhile_eq_Nil_conv list_all_iff)
    with "1.prems" have "list_all isWhiteSpace (s @ t)" by simp
    with b show ?thesis by (simp only: wordsOf_blank)
  next
    case (Cons c cs)
    then have "\<not> (\<forall>x\<in>set s. isWhiteSpace x)"
      by (auto simp: dropWhile_eq_Nil_conv [symmetric])
    then have d: "dropWhile isWhiteSpace (s @ t) = c # (cs @ t)"
      using Cons by (auto simp: dropWhile_append1)
    have c: "\<not> isWhiteSpace c"
      using hd_dropWhile [of isWhiteSpace s] Cons by simp
    have "wordsOf (s @ t) =
        takeWhile (\<lambda>c. \<not> isWhiteSpace c) (c # (cs @ t)) #
        wordsOf (dropWhile (\<lambda>c. \<not> isWhiteSpace c) (cs @ t))"
      by (subst wordsOf.simps) (simp add: d)
    also have "takeWhile (\<lambda>c. \<not> isWhiteSpace c) (c # (cs @ t)) =
        takeWhile (\<lambda>c. \<not> isWhiteSpace c) (c # cs)"
      using takeWhile_append_blank [OF "1.prems", of "c # cs"] by simp
    also have "wordsOf (dropWhile (\<lambda>c. \<not> isWhiteSpace c) (cs @ t)) =
        wordsOf (dropWhile (\<lambda>c. \<not> isWhiteSpace c) cs)"
      using "1.IH" [OF Cons "1.prems"] by (simp add: dropWhile_append_blank [OF "1.prems"])
    also have "takeWhile (\<lambda>c. \<not> isWhiteSpace c) (c # cs) #
        wordsOf (dropWhile (\<lambda>c. \<not> isWhiteSpace c) cs) = wordsOf s"
      by (subst (2) wordsOf.simps) (simp add: Cons)
    finally show ?thesis .
  qed
qed

lemma splitWhitespace_wordsOf:
  "s \<noteq> [] \<Longrightarrow> \<not> isWhiteSpace (last s) \<Longrightarrow>
     splitWhitespace (dropWhile isWhiteSpace s) = wordsOf s"
proof (induction "length s" arbitrary: s rule: less_induct)
  case less
  let ?nw = "\<lambda>c. \<not> isWhiteSpace c"
  from less.prems have "last s \<in> set s" "\<not> isWhiteSpace (last s)" by simp_all
  then have "dropWhile isWhiteSpace s \<noteq> []" by (auto simp: dropWhile_eq_Nil_conv)
  then obtain c cs where s': "dropWhile isWhiteSpace s = c # cs"
    by (cases "dropWhile isWhiteSpace s") auto
  have c: "\<not> isWhiteSpace c" using hd_dropWhile [of isWhiteSpace s] s' by simp
  have w: "wordsOf s = takeWhile ?nw (c # cs) # wordsOf (dropWhile ?nw cs)"
    by (subst wordsOf.simps) (simp add: s')
  have dn: "dropWhile ?nw (c # cs) = dropWhile ?nw cs" using c by simp
  show ?case
  proof (cases "dropWhile ?nw cs")
    case Nil
    then have "takeWhile ?nw (c # cs) = c # cs"
      using c by (simp add: dropWhile_eq_Nil_conv takeWhile_eq_all_conv)
    moreover have "splitWhitespace (c # cs) = [c # cs]"
      by (subst splitWhitespace.simps) (simp add: dn Nil del: dropWhile.simps)
    moreover have "wordsOf [] = []" by (subst wordsOf.simps) simp
    ultimately show ?thesis using w s' Nil by simp
  next
    case (Cons d ds)
    have d: "isWhiteSpace d" using hd_dropWhile [of ?nw cs] Cons by simp
    have split: "s = takeWhile isWhiteSpace s @ c # takeWhile ?nw cs @ d # ds"
      using takeWhile_dropWhile_id [of isWhiteSpace s] takeWhile_dropWhile_id [of ?nw cs]
        s' Cons by simp
    then have "s = (takeWhile isWhiteSpace s @ c # takeWhile ?nw cs) @ (d # ds)" by simp
    then have l: "last (d # ds) = last s"
      by (metis last_appendR list.distinct(1))
    have "length s = length (takeWhile isWhiteSpace s @ c # takeWhile ?nw cs @ d # ds)"
      using split by simp
    then have len: "length (d # ds) < length s" by simp
    have "splitWhitespace (dropWhile isWhiteSpace (d # ds)) = wordsOf (d # ds)"
      using less.hyps [OF len] l less.prems(2) by simp
    then have ih: "splitWhitespace (dropWhile isWhiteSpace ds) = wordsOf (d # ds)"
      using d by simp
    have "splitWhitespace (c # cs) = takeWhile ?nw (c # cs) # splitWhitespace (dropWhile isWhiteSpace ds)"
      by (subst splitWhitespace.simps) (simp add: dn Cons del: dropWhile.simps takeWhile.simps)
    with w ih s' Cons show ?thesis by simp
  qed
qed

lemma splitWhitespace_trim:
  assumes "\<not> isBlank s"
  shows "splitWhitespace (trim s) = wordsOf s"
proof -
  let ?u = "dropWhile isWhiteSpace s"
  let ?v = "rev (dropWhile isWhiteSpace (rev ?u))"
  let ?t = "rev (takeWhile isWhiteSpace (rev ?u))"
  have v: "trim s = ?v" by (simp add: trim_def)
  from assms have vne: "?v \<noteq> []" using trim_Nil_iff [of s] by (simp add: trim_def)
  have u: "?u = ?v @ ?t"
    using takeWhile_dropWhile_id [of isWhiteSpace "rev ?u"]
    by (metis rev_append rev_rev_ident)
  have "\<forall>x\<in>set (takeWhile isWhiteSpace (rev ?u)). isWhiteSpace x"
    using set_takeWhileD by fast
  then have t: "list_all isWhiteSpace ?t" by (simp add: list_all_iff)
  from vne have rne: "dropWhile isWhiteSpace (rev ?u) \<noteq> []" by simp
  have "last ?v = hd (dropWhile isWhiteSpace (rev ?u))"
    using rne by (simp add: last_rev)
  then have lv: "\<not> isWhiteSpace (last ?v)"
    using hd_dropWhile [OF rne] by simp
  have "?u \<noteq> []"
  proof
    assume "?u = []"
    then have "dropWhile isWhiteSpace (rev ?u) = []"
      by (simp only: rev.simps dropWhile.simps)
    with rne show False by simp
  qed
  then have "\<not> isWhiteSpace (hd ?u)" by (rule hd_dropWhile)
  moreover have "hd ?v = hd ?u" using vne by (subst (2) u) simp
  ultimately have "\<not> isWhiteSpace (hd ?v)" by simp
  then have "dropWhile isWhiteSpace ?v = ?v" using vne by (cases ?v) auto
  then have "splitWhitespace ?v = wordsOf ?v"
    using splitWhitespace_wordsOf [OF vne lv] by simp
  also have "\<dots> = wordsOf (?v @ ?t)" using wordsOf_append_blank [OF t] by simp
  also have "\<dots> = wordsOf ?u" using u by simp
  also have "\<dots> = wordsOf s" by (rule wordsOf_dropWhile)
  finally show ?thesis using v by simp
qed

lemma those_map_Some:
  "(\<And>x. x \<in> set xs \<Longrightarrow> g x = Some (h x)) \<Longrightarrow> those (map g xs) = Some (map h xs)"
  by (induction xs) simp_all

lemma analyzeWord_zulu_the:
  "analyzeWord zuluAnalyzer w = Some (the (analyzeWord zuluAnalyzer w))"
proof -
  obtain y where "stripLoop zuluAnalyzer (toLowerCase w) [] = Some y"
    using stripLoop_zulu_returns by blast
  then have "\<exists>ms. analyzeWord zuluAnalyzer w = Some ms"
    by (simp add: analyzeWord_def Let_def)
  then show ?thesis by auto
qed

lemma formatMorphAnalysis_renderWord: "formatMorphAnalysis word ms = renderWord ms"
  by (simp add: formatMorphAnalysis_def renderWord_def)

lemma analyzeLine_zulu:
  assumes "\<not> isBlank line"
  shows "analyzeLine zuluAnalyzer line index =
     Some (renderLine (index + 1)
            (map (\<lambda>word. renderWord (the (analyzeWord zuluAnalyzer word))) (wordsOf line)))"
proof -
  have "those (map (\<lambda>word. map_option (formatMorphAnalysis word) (analyzeWord zuluAnalyzer word))
                   (wordsOf line)) =
        Some (map (\<lambda>word. renderWord (the (analyzeWord zuluAnalyzer word))) (wordsOf line))"
  proof (rule those_map_Some)
    fix word
    have "map_option (formatMorphAnalysis word) (analyzeWord zuluAnalyzer word) =
          map_option (formatMorphAnalysis word) (Some (the (analyzeWord zuluAnalyzer word)))"
      using analyzeWord_zulu_the [of word] by simp
    then show "map_option (formatMorphAnalysis word) (analyzeWord zuluAnalyzer word) =
          Some (renderWord (the (analyzeWord zuluAnalyzer word)))"
      by (simp add: formatMorphAnalysis_renderWord)
  qed
  then show ?thesis
    by (simp add: analyzeLine_def Let_def splitWhitespace_trim [OF assms] renderLine_def)
qed

lemma zip_index_shift:
  "map (\<lambda>(line, index). F (index + 1) line) (zip ls [0..<length ls]) =
   map (\<lambda>(n, line). F n line) (zip [1..<Suc (length ls)] ls)"
proof (rule nth_equalityI)
  show "length (map (\<lambda>(line, index). F (index + 1) line) (zip ls [0..<length ls])) =
        length (map (\<lambda>(n, line). F n line) (zip [1..<Suc (length ls)] ls))"
    by (simp del: upt_Suc)
next
  fix i
  assume "i < length (map (\<lambda>(line, index). F (index + 1) line) (zip ls [0..<length ls]))"
  then have i: "i < length ls" by simp
  then have "[1..<Suc (length ls)] ! i = i + 1"
    using nth_upt [of 1 i "Suc (length ls)"] by simp
  with i show "map (\<lambda>(line, index). F (index + 1) line) (zip ls [0..<length ls]) ! i =
        map (\<lambda>(n, line). F n line) (zip [1..<Suc (length ls)] ls) ! i"
    by (simp add: nth_zip del: upt_Suc)
qed

text \<open>
  Claim C7. For every text, \<open>analyzeText\<close> returns what the specification describes:
  the text is split at new lines; the lines that are empty or hold white space only are
  dropped; the lines kept are numbered 1, 2, ... in their order; each is cut into its
  runs of characters that are not white space; each word is rendered as its morphemes
  \<open>morph[tag]\<close> joined by \<open>-\<close>, each line as \<open><LINE n>\<close> followed at once by
  its words joined by one space, and the lines are joined by new lines. On the text
  \<open>jongo.\<close>, empty line, \<open>Afrika\<close> this gives the two lines numbered 1 and 2.
\<close>

theorem analyzeText_format:
  "analyzeText zuluAnalyzer text =
     Some (specAnalyzeText (\<lambda>word. the (analyzeWord zuluAnalyzer word)) text) \<and>
   analyzeText zuluAnalyzer (''jongo.'' @ [CHR 0x0A, CHR 0x0A] @ ''Afrika'') =
     Some (''<LINE 1>jongo.[NStem]'' @ [CHR 0x0A] @ ''<LINE 2>Afrika[ProperName]'')"
proof
  let ?kept = "filter (\<lambda>line. \<not> isBlank line) (split text (CHR 0x0A))"
  let ?words = "\<lambda>line. map (\<lambda>word. renderWord (the (analyzeWord zuluAnalyzer word)))
                            (wordsOf line)"
  have k: "filter (\<lambda>line. trim line \<noteq> []) (split text (CHR 0x0A)) = ?kept"
    by (simp add: trim_Nil_iff)
  have "those (map (\<lambda>(line, index). analyzeLine zuluAnalyzer line index)
                   (zip ?kept [0..<length ?kept])) =
        Some (map (\<lambda>(line, index). renderLine (index + 1) (?words line))
                  (zip ?kept [0..<length ?kept]))"
  proof (rule those_map_Some)
    fix x assume x: "x \<in> set (zip ?kept [0..<length ?kept])"
    obtain line index where p: "x = (line, index)" by (cases x)
    with x have "line \<in> set ?kept" by (auto dest: set_zip_leftD)
    then have "\<not> isBlank line" by simp
    then show "(case x of (line, index) \<Rightarrow> analyzeLine zuluAnalyzer line index) =
          Some (case x of (line, index) \<Rightarrow> renderLine (index + 1) (?words line))"
      by (simp add: p analyzeLine_zulu)
  qed
  also have "map (\<lambda>(line, index). renderLine (index + 1) (?words line))
                 (zip ?kept [0..<length ?kept]) =
             map (\<lambda>(n, line). renderLine n (?words line)) (zip [1..<Suc (length ?kept)] ?kept)"
    by (rule zip_index_shift [of "\<lambda>n line. renderLine n (?words line)"])
  finally show "analyzeText zuluAnalyzer text =
     Some (specAnalyzeText (\<lambda>word. the (analyzeWord zuluAnalyzer word)) text)"
    by (simp add: analyzeText_def specAnalyzeText_def Let_def k)
next
  show "analyzeText zuluAnalyzer (''jongo.'' @ [CHR 0x0A, CHR 0x0A] @ ''Afrika'') =
     Some (''<LINE 1>jongo.[NStem]'' @ [CHR 0x0A] @ ''<LINE 2>Afrika[ProperName]'')"
    by code_simp
qed

end
